theory Spec2Isabelle
  imports Complex_Main "HOL-Library.Product_Lexorder"
begin

chapter \<open>The embedding\<close>

section \<open>Status values and abnormal termination\<close>

text \<open>
  \<^verbatim>\<open>Status\<close> is the return type of every fallible operation of the storage manager:
  \<^verbatim>\<open>Status::Ok()\<close> or \<^verbatim>\<open>Status::StorageManagerError(msg)\<close>. The text that
  \<^verbatim>\<open>strerror(errno)\<close> appends to some messages is left out.
\<close>

datatype Status = Ok | StorageManagerError string

fun ok :: "Status \<Rightarrow> bool" where
  "ok Ok = True"
| "ok (StorageManagerError m) = False"

text \<open>
  Ways in which the C++ leaves the normal control flow: a failed \<^verbatim>\<open>assert\<close>, the
  \<^verbatim>\<open>std::out_of_range\<close> thrown by \<^verbatim>\<open>substr\<close>, and a read or write outside an
  array or buffer (undefined behaviour in C++; the model stops there with \<open>OutOfBounds\<close>).
\<close>

datatype error = AssertionFailed | OutOfRange | OutOfBounds

section \<open>Coordinate comparators (utils.cc)\<close>

text \<open>
  \<^verbatim>\<open>cmp_row_order\<close> and \<^verbatim>\<open>cmp_col_order\<close> are templates over the element type
  \<^verbatim>\<open>T\<close>; they use only \<^verbatim>\<open><\<close> and \<^verbatim>\<open>>\<close> of \<^verbatim>\<open>T\<close>, so the model is polymorphic
  over a type with an order relation. The \<^verbatim>\<open>const T*\<close> arguments are lists; reading
  index \<open>i\<close> outside a list is \<open>OutOfBounds\<close>. The loop counter and \<^verbatim>\<open>dim_num\<close>
  are C \<^verbatim>\<open>int\<close>s. \<open>cmp_row_from\<close> is the loop \<^verbatim>\<open>for(i=0; i<dim_num; ++i)\<close> from
  counter value \<open>i\<close> on, \<open>cmp_col_from\<close> the loop \<^verbatim>\<open>for(i=dim_num-1; i>=0; --i)\<close>.
\<close>

function cmp_row_from :: "'a::ord list \<Rightarrow> 'a list \<Rightarrow> int \<Rightarrow> int \<Rightarrow> error + int" where
  "cmp_row_from coords_a coords_b dim_num i =
     (if i < dim_num then
        (if i < 0 \<or> int (length coords_a) \<le> i \<or> int (length coords_b) \<le> i then Inl OutOfBounds
         else if coords_a ! nat i < coords_b ! nat i then Inr (- 1)
         else if coords_a ! nat i > coords_b ! nat i then Inr 1
         else cmp_row_from coords_a coords_b dim_num (i + 1))
      else Inr 0)"
  by pat_completeness auto
termination
  by (relation "measure (\<lambda>(a, b, n, i). nat (n - i))") auto

declare cmp_row_from.simps [simp del]

definition cmp_row_order :: "'a::ord list \<Rightarrow> 'a list \<Rightarrow> int \<Rightarrow> error + int" where
  "cmp_row_order coords_a coords_b dim_num = cmp_row_from coords_a coords_b dim_num 0"

function cmp_col_from :: "'a::ord list \<Rightarrow> 'a list \<Rightarrow> int \<Rightarrow> error + int" where
  "cmp_col_from coords_a coords_b i =
     (if i \<ge> 0 then
        (if int (length coords_a) \<le> i \<or> int (length coords_b) \<le> i then Inl OutOfBounds
         else if coords_a ! nat i < coords_b ! nat i then Inr (- 1)
         else if coords_a ! nat i > coords_b ! nat i then Inr 1
         else cmp_col_from coords_a coords_b (i - 1))
      else Inr 0)"
  by pat_completeness auto
termination
  by (relation "measure (\<lambda>(a, b, i). nat (i + 1))") auto

declare cmp_col_from.simps [simp del]

definition cmp_col_order :: "'a::ord list \<Rightarrow> 'a list \<Rightarrow> int \<Rightarrow> error + int" where
  "cmp_col_order coords_a coords_b dim_num = cmp_col_from coords_a coords_b (dim_num - 1)"

text \<open>
  The element types \<^verbatim>\<open>int\<close> and \<^verbatim>\<open>int64_t\<close> are compared as the integers they
  denote, a linear order. For \<^verbatim>\<open>float\<close> and \<^verbatim>\<open>double\<close> the comparison is the one of
  IEEE 754: a value is a NaN, an infinity or a finite number; \<^verbatim>\<open><\<close> and \<^verbatim>\<open>>\<close> are
  false as soon as one operand is a NaN, and otherwise compare the values, minus infinity
  below and plus infinity above every finite number (the two zeros are the same number).
  \<open>fp\<close> keeps exactly that much of a floating-point value; rounding plays no role in a
  comparison.
\<close>

datatype fp = NaN | MinusInfinity | Num rat | PlusInfinity

instantiation fp :: ord
begin
definition less_fp :: "fp \<Rightarrow> fp \<Rightarrow> bool" where
  "less_fp x y =
     (case x of
        NaN \<Rightarrow> False
      | MinusInfinity \<Rightarrow> (case y of NaN \<Rightarrow> False | MinusInfinity \<Rightarrow> False | _ \<Rightarrow> True)
      | Num p \<Rightarrow> (case y of Num q \<Rightarrow> p < q | PlusInfinity \<Rightarrow> True | _ \<Rightarrow> False)
      | PlusInfinity \<Rightarrow> False)"
definition less_eq_fp :: "fp \<Rightarrow> fp \<Rightarrow> bool" where
  "less_eq_fp x y =
     (case x of
        NaN \<Rightarrow> False
      | MinusInfinity \<Rightarrow> (case y of NaN \<Rightarrow> False | _ \<Rightarrow> True)
      | Num p \<Rightarrow> (case y of Num q \<Rightarrow> p \<le> q | PlusInfinity \<Rightarrow> True | _ \<Rightarrow> False)
      | PlusInfinity \<Rightarrow> (case y of PlusInfinity \<Rightarrow> True | _ \<Rightarrow> False))"
instance ..
end

section \<open>Path utilities (utils.cc)\<close>

text \<open>
  \<^verbatim>\<open>adjacent_slashes_dedup\<close> is \<^verbatim>\<open>std::unique\<close> with the predicate
  \<^verbatim>\<open>both_slashes\<close>: an element is dropped when the predicate holds for the last kept
  element and it.
\<close>

definition both_slashes :: "char \<Rightarrow> char \<Rightarrow> bool" where
  "both_slashes a b = (a = CHR ''/'' \<and> b = CHR ''/'')"

fun unique_from :: "('a \<Rightarrow> 'a \<Rightarrow> bool) \<Rightarrow> 'a \<Rightarrow> 'a list \<Rightarrow> 'a list" where
  "unique_from p r [] = []"
| "unique_from p r (x # xs) = (if p r x then unique_from p r xs else x # unique_from p x xs)"

fun unique :: "('a \<Rightarrow> 'a \<Rightarrow> bool) \<Rightarrow> 'a list \<Rightarrow> 'a list" where
  "unique p [] = []"
| "unique p (x # xs) = x # unique_from p x xs"

definition adjacent_slashes_dedup :: "string \<Rightarrow> string" where
  "adjacent_slashes_dedup v = unique both_slashes v"

definition starts_with :: "string \<Rightarrow> string \<Rightarrow> bool" where
  "starts_with v prefix =
     (if length prefix > length v then False else take (length prefix) v = prefix)"

text \<open>
  \<^verbatim>\<open>purge_dots_from_path\<close>. The tokenizer overwrites each \<^verbatim>\<open>/\<close> by a NUL and reads
  the token as a C string, so a token ends at the first NUL (\<open>c_str\<close>); empty tokens
  are dropped. \<open>tokenize cs cur\<close> is the scan of the characters \<open>cs\<close> after the leading
  slash with \<open>cur\<close> the characters of the token read so far. \<open>purge_tokens\<close> is the second
  loop (\<open>None\<close> is the early return with the path set to the empty string), and
  \<open>append_tokens\<close> the third, with \<open>i\<close> its counter.
\<close>

definition c_str :: "string \<Rightarrow> string" where
  "c_str s = takeWhile (\<lambda>c. c \<noteq> CHR 0x00) s"

fun tokenize :: "string \<Rightarrow> string \<Rightarrow> string list" where
  "tokenize [] cur = (if c_str cur \<noteq> [] then [c_str cur] else [])"
| "tokenize (c # cs) cur =
     (if c = CHR ''/'' then (if c_str cur \<noteq> [] then [c_str cur] else []) @ tokenize cs []
      else tokenize cs (cur @ [c]))"

fun purge_tokens :: "string list \<Rightarrow> string list \<Rightarrow> string list option" where
  "purge_tokens [] final_tokens = Some final_tokens"
| "purge_tokens (t # ts) final_tokens =
     (if t = ''.'' then purge_tokens ts final_tokens
      else if t = ''..'' then
        (if length final_tokens = 0 then None else purge_tokens ts (butlast final_tokens))
      else purge_tokens ts (final_tokens @ [t]))"

fun append_tokens :: "string \<Rightarrow> nat \<Rightarrow> string list \<Rightarrow> string" where
  "append_tokens path i [] = path"
| "append_tokens path i (t # ts) =
     append_tokens (path @ (if i \<noteq> 0 then ''/'' else '''') @ t) (Suc i) ts"

definition purge_dots_from_path :: "string \<Rightarrow> error + string" where
  "purge_dots_from_path path =
     (if length path = 0 \<or> path = ''/'' then Inr path
      else if hd path \<noteq> CHR ''/'' then Inl AssertionFailed
      else (case purge_tokens (tokenize (tl path) []) [] of
              None \<Rightarrow> Inr ''''
            | Some final_tokens \<Rightarrow> Inr (append_tokens ''/'' 0 final_tokens)))"

text \<open>
  \<^verbatim>\<open>real_dir\<close> reads the process environment: \<^verbatim>\<open>current_dir()\<close> (the result of
  \<^verbatim>\<open>getcwd\<close>) and \<^verbatim>\<open>getenv("HOME")\<close>. Both are fields of \<open>environment\<close>.
\<close>

record environment =
  current_dir :: string
  home :: string

definition real_dir :: "environment \<Rightarrow> string \<Rightarrow> error + string" where
  "real_dir env dir =
     (if dir = '''' \<or> dir = ''.'' \<or> dir = ''./'' then Inr (current_dir env)
      else if dir = ''~'' then Inr (home env)
      else if dir = ''/'' then Inr ''/''
      else
        (let ret_dir =
           (if starts_with dir ''/'' then ''/'' @ dir
            else if starts_with dir ''~/'' then home env @ drop 1 dir
            else if starts_with dir ''./'' then current_dir env @ drop 1 dir
            else current_dir env @ ''/'' @ dir)
         in purge_dots_from_path (adjacent_slashes_dedup ret_dir)))"

text \<open>
  \<^verbatim>\<open>parent_dir\<close>. \<^verbatim>\<open>pos\<close> is a C \<^verbatim>\<open>int\<close>; on the empty string the first read
  \<^verbatim>\<open>real_dir[pos]\<close> is at index \<open>-1\<close>. A negative \<^verbatim>\<open>pos\<close> passed to
  \<^verbatim>\<open>substr(0, pos)\<close> converts to a huge count and the whole string is returned.
\<close>

function scan_back :: "string \<Rightarrow> int \<Rightarrow> int" where
  "scan_back s pos =
     (if pos > 0 \<and> s ! nat pos \<noteq> CHR ''/'' then scan_back s (pos - 1) else pos)"
  by pat_completeness auto
termination
  by (relation "measure (\<lambda>(s, pos). nat pos)") auto

declare scan_back.simps [simp del]

definition parent_dir :: "environment \<Rightarrow> string \<Rightarrow> error + string" where
  "parent_dir env dir =
     (case real_dir env dir of
        Inl e \<Rightarrow> Inl e
      | Inr rd \<Rightarrow>
          if rd = [] then Inl OutOfBounds
          else
            (let pos0 = int (length rd) - 1;
                 pos1 = (if rd ! nat pos0 = CHR ''/'' then pos0 - 1 else pos0);
                 pos = scan_back rd pos1
             in Inr (if pos < 0 then rd else take (nat pos) rd)))"

section \<open>C library functions used by the storage manager\<close>

text \<open>
  \<^verbatim>\<open>sscanf(s, "%lld", &t)\<close> belongs to the C library, not to the repository. It
  skips white space, reads an optional sign and the longest run of decimal digits, and
  fails (leaving \<^verbatim>\<open>t\<close> untouched) when there is no digit. A value outside the range of
  \<^verbatim>\<open>long long\<close> is clamped as \<^verbatim>\<open>strtoll\<close> does.
\<close>

definition isspace :: "char \<Rightarrow> bool" where
  "isspace c = (c \<in> set [CHR '' '', CHR 0x09, CHR 0x0A, CHR 0x0B, CHR 0x0C, CHR 0x0D])"

definition isdigit :: "char \<Rightarrow> bool" where
  "isdigit c = (c \<in> set ''0123456789'')"

definition digit_value :: "char \<Rightarrow> int" where
  "digit_value c = int (of_char c) - 48"

definition dec_value :: "string \<Rightarrow> int" where
  "dec_value ds = foldl (\<lambda>a c. 10 * a + digit_value c) 0 ds"

definition strtoll_clamp :: "int \<Rightarrow> int" where
  "strtoll_clamp v =
     (if v > 2 ^ 63 - 1 then 2 ^ 63 - 1 else if v < - (2 ^ 63) then - (2 ^ 63) else v)"

definition sscanf_lld :: "string \<Rightarrow> int option" where
  "sscanf_lld s =
     (let s0 = dropWhile isspace (c_str s);
          neg = (s0 \<noteq> [] \<and> hd s0 = CHR ''-'');
          s1 = (if s0 \<noteq> [] \<and> (hd s0 = CHR ''-'' \<or> hd s0 = CHR ''+'') then tl s0 else s0);
          ds = takeWhile isdigit s1
      in if ds = [] then None
         else Some (strtoll_clamp ((if neg then - 1 else 1) * dec_value ds)))"

section \<open>The file system\<close>

text \<open>
  Modelled from the spec: \<^verbatim>\<open>constants.h\<close> is not among the sources; the marker file names
  are the ones the specification lists in its file system layout.
\<close>

definition TILEDB_WORKSPACE_FILENAME :: string where
  "TILEDB_WORKSPACE_FILENAME = ''__tiledb_workspace.tdb''"

definition TILEDB_GROUP_FILENAME :: string where
  "TILEDB_GROUP_FILENAME = ''__tiledb_group.tdb''"

definition TILEDB_ARRAY_SCHEMA_FILENAME :: string where
  "TILEDB_ARRAY_SCHEMA_FILENAME = ''__array_schema.tdb''"

definition TILEDB_METADATA_SCHEMA_FILENAME :: string where
  "TILEDB_METADATA_SCHEMA_FILENAME = ''__metadata_schema.tdb''"

definition TILEDB_FRAGMENT_FILENAME :: string where
  "TILEDB_FRAGMENT_FILENAME = ''__tiledb_fragment.tdb''"

definition TILEDB_SM_CONSOLIDATION_FILELOCK_NAME :: string where
  "TILEDB_SM_CONSOLIDATION_FILELOCK_NAME = ''__consolidation_lock''"

text \<open>
  The operating system is modelled by its state: the list of existing paths, each a
  directory or a file with its content, in the order in which \<^verbatim>\<open>readdir\<close> reports
  them. The keys are canonical absolute paths. A system call receives a C string and
  resolves it as the kernel does (\<open>resolve\<close>): an empty path is refused (ENOENT); a
  path that does not start with a slash is read from the working directory of the
  process; the components are followed one at a time (\<open>walk\<close>), each from a directory
  that must exist, \<^verbatim>\<open>.\<close> staying there and \<^verbatim>\<open>..\<close> going to its parent (the root is its
  own parent); empty components are skipped. The last component need not exist. A path
  that ends with a slash names a directory: \<open>stat\<close> refuses it when it leads to a file
  (ENOTDIR) and \<open>open_create\<close> refuses it always. Symbolic links, permissions and the
  limits on the length of a name are not modelled.
  \<open>mkdir\<close> fails when the path exists; \<open>open_create\<close> is
  \<^verbatim>\<open>open(O_WRONLY | O_CREAT | O_SYNC)\<close> followed by a successful \<^verbatim>\<open>close\<close>, and
  \<open>write_file\<close> the \<^verbatim>\<open>write\<close> of all bytes at offset 0 of the file so opened;
  \<open>opendir\<close> gives the entries of a directory, \<^verbatim>\<open>.\<close> and \<^verbatim>\<open>..\<close> first, or \<open>None\<close>
  when the directory cannot be opened.
\<close>

datatype node = File string | Directory

type_synonym filesystem = "(string \<times> node) list"

definition path_of :: "string list \<Rightarrow> string" where
  "path_of components =
     (if components = [] then ''/'' else concat (map ((#) CHR ''/'') components))"

fun walk :: "filesystem \<Rightarrow> string list \<Rightarrow> string list \<Rightarrow> string list option" where
  "walk fs cur [] = Some cur"
| "walk fs cur (c # cs) =
     (if map_of fs (path_of cur) \<noteq> Some Directory then None
      else if c = ''.'' then walk fs cur cs
      else if c = ''..'' then walk fs (butlast cur) cs
      else walk fs (cur @ [c]) cs)"

definition resolve :: "environment \<Rightarrow> filesystem \<Rightarrow> string \<Rightarrow> string option" where
  "resolve env fs p =
     (let q = c_str p in
      if q = [] then None
      else map_option path_of
             (walk fs (if hd q = CHR ''/'' then [] else tokenize (current_dir env) [])
                (tokenize q [])))"

definition trailing_slash :: "string \<Rightarrow> bool" where
  "trailing_slash p = (c_str p \<noteq> [] \<and> last (c_str p) = CHR ''/'')"

definition stat :: "environment \<Rightarrow> filesystem \<Rightarrow> string \<Rightarrow> node option" where
  "stat env fs p =
     (case resolve env fs p of
        None \<Rightarrow> None
      | Some q \<Rightarrow>
          (case map_of fs q of
             None \<Rightarrow> None
           | Some Directory \<Rightarrow> Some Directory
           | Some (File content) \<Rightarrow> if trailing_slash p then None else Some (File content)))"

definition dirname :: "string \<Rightarrow> string" where
  "dirname p =
     (let d = rev (drop 1 (dropWhile (\<lambda>c. c \<noteq> CHR ''/'') (rev p)))
      in if d = [] then ''/'' else d)"

definition basename :: "string \<Rightarrow> string" where
  "basename p = rev (takeWhile (\<lambda>c. c \<noteq> CHR ''/'') (rev p))"

definition mkdir :: "environment \<Rightarrow> filesystem \<Rightarrow> string \<Rightarrow> filesystem option" where
  "mkdir env fs p =
     (case resolve env fs p of
        None \<Rightarrow> None
      | Some q \<Rightarrow> if map_of fs q \<noteq> None then None else Some (fs @ [(q, Directory)]))"

definition open_create :: "environment \<Rightarrow> filesystem \<Rightarrow> string \<Rightarrow> filesystem option" where
  "open_create env fs p =
     (case resolve env fs p of
        None \<Rightarrow> None
      | Some q \<Rightarrow>
          if trailing_slash p then None
          else
            (case map_of fs q of
               Some Directory \<Rightarrow> None
             | Some (File content) \<Rightarrow> Some fs
             | None \<Rightarrow> Some (fs @ [(q, File [])])))"

definition write_file :: "environment \<Rightarrow> filesystem \<Rightarrow> string \<Rightarrow> string \<Rightarrow> filesystem" where
  "write_file env fs p bytes =
     (case resolve env fs p of
        None \<Rightarrow> fs
      | Some q \<Rightarrow>
          map (\<lambda>(k, n). if k = q then
                          (case n of
                             File content \<Rightarrow> (k, File (bytes @ drop (length bytes) content))
                           | Directory \<Rightarrow> (k, n))
                        else (k, n)) fs)"

definition opendir :: "environment \<Rightarrow> filesystem \<Rightarrow> string \<Rightarrow> string list option" where
  "opendir env fs p =
     (case resolve env fs p of
        None \<Rightarrow> None
      | Some q \<Rightarrow>
          if map_of fs q = Some Directory then
            Some (''.'' # ''..'' #
                  map (\<lambda>(k, n). basename k)
                    (filter (\<lambda>(k, n). k \<noteq> ''/'' \<and> dirname k = q) fs))
          else None)"

text \<open>
  The predicates of utils.cc.
\<close>

definition is_dir :: "environment \<Rightarrow> filesystem \<Rightarrow> string \<Rightarrow> bool" where
  "is_dir env fs dir = (stat env fs dir = Some Directory)"

definition is_file :: "environment \<Rightarrow> filesystem \<Rightarrow> string \<Rightarrow> bool" where
  "is_file env fs file = (case stat env fs file of None \<Rightarrow> False | Some n \<Rightarrow> n \<noteq> Directory)"

definition is_array :: "environment \<Rightarrow> filesystem \<Rightarrow> string \<Rightarrow> bool" where
  "is_array env fs dir =
     (if is_dir env fs dir \<and> is_file env fs (dir @ ''/'' @ TILEDB_ARRAY_SCHEMA_FILENAME)
      then True else False)"

definition is_fragment :: "environment \<Rightarrow> filesystem \<Rightarrow> string \<Rightarrow> bool" where
  "is_fragment env fs dir =
     (if is_dir env fs dir \<and> is_file env fs (dir @ ''/'' @ TILEDB_FRAGMENT_FILENAME)
      then True else False)"

definition is_group :: "environment \<Rightarrow> filesystem \<Rightarrow> string \<Rightarrow> bool" where
  "is_group env fs dir =
     (if is_dir env fs dir \<and> is_file env fs (dir @ ''/'' @ TILEDB_GROUP_FILENAME)
      then True else False)"

definition is_workspace :: "environment \<Rightarrow> filesystem \<Rightarrow> string \<Rightarrow> bool" where
  "is_workspace env fs dir =
     (if is_dir env fs dir \<and> is_file env fs (dir @ ''/'' @ TILEDB_WORKSPACE_FILENAME)
      then True else False)"

text \<open>
  Modelled from the spec: \<^verbatim>\<open>utils::is_metadata\<close> is called by the storage manager but
  is not in the utils.cc at hand; the specification defines it like the other predicates,
  with the marker \<^verbatim>\<open>__metadata_schema.tdb\<close>.
\<close>

definition is_metadata :: "environment \<Rightarrow> filesystem \<Rightarrow> string \<Rightarrow> bool" where
  "is_metadata env fs dir =
     (is_dir env fs dir \<and> is_file env fs (dir @ ''/'' @ TILEDB_METADATA_SCHEMA_FILENAME))"

definition get_dirs :: "environment \<Rightarrow> filesystem \<Rightarrow> string \<Rightarrow> string list" where
  "get_dirs env fs dir =
     (case opendir env fs dir of
        None \<Rightarrow> []
      | Some entries \<Rightarrow>
          map (\<lambda>d_name. dir @ ''/'' @ d_name)
            (filter (\<lambda>d_name. \<not> (d_name = ''.'' \<or> d_name = ''..''
                                  \<or> \<not> is_dir env fs (dir @ ''/'' @ d_name))) entries))"

text \<open>
  Modelled from the spec: \<^verbatim>\<open>utils::get_fragment_dirs\<close> is not in the utils.cc at hand;
  the specification describes it as the children of the array directory that are
  fragments.
\<close>

definition get_fragment_dirs :: "environment \<Rightarrow> filesystem \<Rightarrow> string \<Rightarrow> string list" where
  "get_fragment_dirs env fs dir = filter (is_fragment env fs) (get_dirs env fs dir)"

definition create_dir :: "environment \<Rightarrow> filesystem \<Rightarrow> string \<Rightarrow> error + (Status \<times> filesystem)" where
  "create_dir env fs dir =
     (case real_dir env dir of
        Inl e \<Rightarrow> Inl e
      | Inr rd \<Rightarrow>
          if \<not> is_dir env fs rd then
            (case mkdir env fs rd of
               None \<Rightarrow>
                 Inr (StorageManagerError
                        (''Cannot create directory '' @ [CHR 0x27] @ rd @ [CHR 0x27] @ ''; ''), fs)
             | Some fs' \<Rightarrow> Inr (Ok, fs'))
          else
            Inr (StorageManagerError
                   (''Cannot create directory '' @ [CHR 0x27] @ rd @ [CHR 0x27]
                    @ ''; Directory already exists''), fs))"

section \<open>Fragment ordering (storage_manager.cc)\<close>

text \<open>
  \<^verbatim>\<open>sort_fragment_names\<close>. \<open>timestamp_field cs j stripped\<close> is the inner loop over
  \<^verbatim>\<open>j\<close>, started at \<open>j = 2\<close> with \<open>cs\<close> the characters of \<open>stripped\<close> from index
  \<open>j\<close> on: at the first underscore it yields \<^verbatim>\<open>substr(j + 1, size - j)\<close>.
  \<open>fragment_timestamps\<close> is the outer loop: \<open>i\<close> is its counter and \<open>t\<close> the current
  value of the variable \<^verbatim>\<open>t\<close>, which is not initialised and which \<^verbatim>\<open>sscanf\<close>
  leaves unchanged when it fails. An entry of \<^verbatim>\<open>t_pos_vec\<close> that is never assigned
  keeps the value \<open>(0, 0)\<close> that \<^verbatim>\<open>resize\<close> gave it. The \<^verbatim>\<open>assert\<close> is modelled as
  active. \<^verbatim>\<open>SORT\<close> is \<^verbatim>\<open>std::sort\<close> on pairs, whose result is the sorted
  permutation in the lexicographic order of pairs.
\<close>

fun timestamp_field :: "string \<Rightarrow> nat \<Rightarrow> string \<Rightarrow> string option" where
  "timestamp_field [] j stripped = None"
| "timestamp_field (c # cs) j stripped =
     (if c = CHR ''_'' then Some (take (length stripped - j) (drop (j + 1) stripped))
      else timestamp_field cs (Suc j) stripped)"

fun fragment_timestamps ::
  "environment \<Rightarrow> string list \<Rightarrow> nat \<Rightarrow> int \<Rightarrow> error + (int \<times> nat) list" where
  "fragment_timestamps env [] i t = Inr []"
| "fragment_timestamps env (fragment_name # rest) i t =
     (case parent_dir env fragment_name of
        Inl e \<Rightarrow> Inl e
      | Inr parent_fragment_name \<Rightarrow>
          if length parent_fragment_name + 1 > length fragment_name then Inl OutOfRange
          else
            (let stripped = drop (length parent_fragment_name + 1) fragment_name in
             if \<not> starts_with stripped ''__'' then Inl AssertionFailed
             else
               (case timestamp_field (drop 2 stripped) 2 stripped of
                  None \<Rightarrow>
                    (case fragment_timestamps env rest (Suc i) t of
                       Inl e \<Rightarrow> Inl e
                     | Inr v \<Rightarrow> Inr ((0, 0) # v))
                | Some t_str \<Rightarrow>
                    (let t' = (case sscanf_lld t_str of None \<Rightarrow> t | Some v \<Rightarrow> v) in
                     case fragment_timestamps env rest (Suc i) t' of
                       Inl e \<Rightarrow> Inl e
                     | Inr v \<Rightarrow> Inr ((t', i) # v)))))"

definition sort_fragment_names ::
  "environment \<Rightarrow> int \<Rightarrow> string list \<Rightarrow> error + string list" where
  "sort_fragment_names env t0 fragment_names =
     (case fragment_timestamps env fragment_names 0 t0 of
        Inl e \<Rightarrow> Inl e
      | Inr t_pos_vec \<Rightarrow> Inr (map (\<lambda>p. fragment_names ! snd p) (sort t_pos_vec)))"

definition array_get_fragment_names ::
  "environment \<Rightarrow> filesystem \<Rightarrow> int \<Rightarrow> string \<Rightarrow> error + string list" where
  "array_get_fragment_names env fs t0 array =
     (case real_dir env array of
        Inl e \<Rightarrow> Inl e
      | Inr rd \<Rightarrow> sort_fragment_names env t0 (get_fragment_dirs env fs rd))"

section \<open>Creating workspaces, groups and metadata (storage_manager.cc)\<close>

definition create_workspace_file :: "environment \<Rightarrow> filesystem \<Rightarrow> string \<Rightarrow> Status \<times> filesystem" where
  "create_workspace_file env fs workspace =
     (case open_create env fs (workspace @ ''/'' @ TILEDB_WORKSPACE_FILENAME) of
        None \<Rightarrow> (StorageManagerError ''Failed to create workspace file; '', fs)
      | Some fs' \<Rightarrow> (Ok, fs'))"

definition create_group_file :: "environment \<Rightarrow> filesystem \<Rightarrow> string \<Rightarrow> Status \<times> filesystem" where
  "create_group_file env fs group_name =
     (case open_create env fs (group_name @ ''/'' @ TILEDB_GROUP_FILENAME) of
        None \<Rightarrow> (StorageManagerError ''Failed to create group file; '', fs)
      | Some fs' \<Rightarrow> (Ok, fs'))"

definition consolidation_filelock_create ::
  "environment \<Rightarrow> filesystem \<Rightarrow> string \<Rightarrow> Status \<times> filesystem" where
  "consolidation_filelock_create env fs dir =
     (case open_create env fs (dir @ ''/'' @ TILEDB_SM_CONSOLIDATION_FILELOCK_NAME) of
        None \<Rightarrow> (StorageManagerError ''Cannot create consolidation filelock; '', fs)
      | Some fs' \<Rightarrow> (Ok, fs'))"

definition workspace_create ::
  "environment \<Rightarrow> filesystem \<Rightarrow> string \<Rightarrow> error + (Status \<times> filesystem)" where
  "workspace_create env fs workspace =
     (case parent_dir env workspace of
        Inl e \<Rightarrow> Inl e
      | Inr parent \<Rightarrow>
          if is_workspace env fs parent \<or> is_group env fs parent \<or> is_array env fs parent
             \<or> is_metadata env fs parent then
            Inr (StorageManagerError
                  (''The workspace cannot be contained in another workspace, '' @
                   ''group, array or metadata directory''), fs)
          else
            (case create_dir env fs workspace of
               Inl e \<Rightarrow> Inl e
             | Inr (st, fs1) \<Rightarrow>
                 if \<not> ok st then Inr (st, fs1)
                 else
                   (case create_workspace_file env fs1 workspace of
                      (st2, fs2) \<Rightarrow>
                        if \<not> ok st2 then
                          Inr (StorageManagerError
                                (''Cannot create workspace file for workspace: '' @ workspace), fs2)
                        else Inr (Ok, fs2))))"

definition group_create ::
  "environment \<Rightarrow> filesystem \<Rightarrow> string \<Rightarrow> error + (Status \<times> filesystem)" where
  "group_create env fs group_name =
     (case parent_dir env group_name of
        Inl e \<Rightarrow> Inl e
      | Inr parent \<Rightarrow>
          if \<not> is_workspace env fs parent \<and> \<not> is_group env fs parent then
            Inr (StorageManagerError
                  (''The group must be contained in a workspace '' @ ''or another group''), fs)
          else
            (case create_dir env fs group_name of
               Inl e \<Rightarrow> Inl e
             | Inr (st, fs1) \<Rightarrow>
                 if \<not> ok st then Inr (st, fs1)
                 else
                   (case create_group_file env fs1 group_name of
                      (st2, fs2) \<Rightarrow>
                        if \<not> ok st2 then
                          Inr (StorageManagerError
                                (''Cannot create group file for group:  '' @ group_name), fs2)
                        else Inr (Ok, fs2))))"

text \<open>
  \<^verbatim>\<open>ArraySchema\<close> is an external class. The storage manager uses its name and its
  serialisation (a status and the bytes). \<^verbatim>\<open>metadata_create\<close> on a C schema first
  calls \<^verbatim>\<open>ArraySchema::init\<close>, whose status is the argument \<open>st_init\<close>;
  \<open>metadata_create_schema\<close> is the overload on an \<^verbatim>\<open>ArraySchema*\<close> (\<open>None\<close> is the null
  pointer). A \<^verbatim>\<open>write\<close> to the schema file is taken to write all bytes.
\<close>

record ArraySchema =
  array_name :: string
  serialize :: "Status \<times> string"

definition metadata_create_schema ::
  "environment \<Rightarrow> filesystem \<Rightarrow> ArraySchema option \<Rightarrow> error + (Status \<times> filesystem)" where
  "metadata_create_schema env fs array_schema =
     (case array_schema of
        None \<Rightarrow> Inr (StorageManagerError ''Cannot create metadata; Empty metadata schema'', fs)
      | Some schema \<Rightarrow>
          (let dir = array_name schema in
           case create_dir env fs dir of
             Inl e \<Rightarrow> Inl e
           | Inr (st, fs1) \<Rightarrow>
               if \<not> ok st then Inr (st, fs1)
               else
                 (let filename = dir @ ''/'' @ TILEDB_METADATA_SCHEMA_FILENAME in
                  case open_create env fs1 filename of
                    None \<Rightarrow> Inr (StorageManagerError ''Cannot create metadata; '', fs1)
                  | Some fs2 \<Rightarrow>
                      if \<not> ok (fst (serialize schema)) then Inr (fst (serialize schema), fs2)
                      else
                        (let fs3 = write_file env fs2 filename (snd (serialize schema)) in
                         case consolidation_filelock_create env fs3 dir of
                           (st4, fs4) \<Rightarrow> if \<not> ok st4 then Inr (st4, fs4) else Inr (Ok, fs4)))))"

definition metadata_create ::
  "environment \<Rightarrow> filesystem \<Rightarrow> Status \<Rightarrow> ArraySchema \<Rightarrow> error + (Status \<times> filesystem)" where
  "metadata_create env fs st_init array_schema =
     (if \<not> ok st_init then Inr (st_init, fs)
      else
        (let dir = array_name array_schema in
         case parent_dir env dir of
           Inl e \<Rightarrow> Inl e
         | Inr parent \<Rightarrow>
             if \<not> is_workspace env fs parent \<and> \<not> is_group env fs parent \<and> \<not> is_array env fs parent then
               Inr (StorageManagerError
                     (''Cannot create metadata; Directory '' @ [CHR 0x27] @ parent @ [CHR 0x27]
                      @ '' must be a TileDB workspace, group, or array''), fs)
             else metadata_create_schema env fs (Some array_schema)))"

section \<open>Listing a directory (storage_manager.cc)\<close>

text \<open>
  \<^verbatim>\<open>ls\<close> gets two caller-allocated buffers and \<^verbatim>\<open>dir_num\<close>, their capacity on
  entry and the number of entries on return. \<open>ls_entries\<close> is the \<^verbatim>\<open>readdir\<close> loop with
  counter \<open>dir_i\<close>. Whether \<^verbatim>\<open>closedir\<close> fails is an argument.
\<close>

datatype tiledb_object_t = TILEDB_WORKSPACE | TILEDB_GROUP | TILEDB_ARRAY | TILEDB_METADATA

fun ls_entries ::
  "environment \<Rightarrow> filesystem \<Rightarrow> string \<Rightarrow> string list \<Rightarrow> int \<Rightarrow> string list \<Rightarrow> tiledb_object_t list \<Rightarrow> int
   \<Rightarrow> error + (Status \<times> string list \<times> tiledb_object_t list \<times> int)" where
  "ls_entries env fs parent_dir_real [] dir_num dirs dir_types dir_i = Inr (Ok, dirs, dir_types, dir_i)"
| "ls_entries env fs parent_dir_real (d_name # rest) dir_num dirs dir_types dir_i =
     (if d_name = ''.'' \<or> d_name = ''..'' then
        ls_entries env fs parent_dir_real rest dir_num dirs dir_types dir_i
      else
        (let filename = parent_dir_real @ ''/'' @ d_name;
             kind = (if is_group env fs filename then Some TILEDB_GROUP
                     else if is_metadata env fs filename then Some TILEDB_METADATA
                     else if is_array env fs filename then Some TILEDB_ARRAY
                     else if is_workspace env fs filename then Some TILEDB_WORKSPACE
                     else None)
         in case kind of
              None \<Rightarrow> ls_entries env fs parent_dir_real rest dir_num dirs dir_types dir_i
            | Some k \<Rightarrow>
                if dir_i = dir_num then
                  Inr (StorageManagerError
                         ''Cannot list TileDB directory; Directory buffer overflow'',
                       dirs, dir_types, dir_i)
                else if dir_i < 0 \<or> int (length dirs) \<le> dir_i \<or> int (length dir_types) \<le> dir_i
                then Inl OutOfBounds
                else ls_entries env fs parent_dir_real rest dir_num
                       (dirs[nat dir_i := d_name]) (dir_types[nat dir_i := k]) (dir_i + 1)))"

definition ls ::
  "environment \<Rightarrow> filesystem \<Rightarrow> bool \<Rightarrow> string \<Rightarrow> string list \<Rightarrow> tiledb_object_t list \<Rightarrow> int
   \<Rightarrow> error + (Status \<times> string list \<times> tiledb_object_t list \<times> int)" where
  "ls env fs closedir_fails parent dirs dir_types dir_num =
     (case real_dir env parent of
        Inl e \<Rightarrow> Inl e
      | Inr parent_dir_real \<Rightarrow>
          (case opendir env fs parent_dir_real of
             None \<Rightarrow> Inr (Ok, dirs, dir_types, 0)
           | Some entries \<Rightarrow>
               (case ls_entries env fs parent_dir_real entries dir_num dirs dir_types 0 of
                  Inl e \<Rightarrow> Inl e
                | Inr (st, dirs', dir_types', dir_i) \<Rightarrow>
                    if \<not> ok st then Inr (st, dirs', dir_types', dir_num)
                    else if closedir_fails then
                      Inr (StorageManagerError ''Cannot close parent directory; '',
                           dirs', dir_types', dir_num)
                    else Inr (Ok, dirs', dir_types', dir_i))))"

fun ls_c_entries ::
  "environment \<Rightarrow> filesystem \<Rightarrow> string \<Rightarrow> string list \<Rightarrow> int \<Rightarrow> int" where
  "ls_c_entries env fs parent_dir_real [] dir_num = dir_num"
| "ls_c_entries env fs parent_dir_real (d_name # rest) dir_num =
     (if d_name = ''.'' \<or> d_name = ''..'' then ls_c_entries env fs parent_dir_real rest dir_num
      else
        (let filename = parent_dir_real @ ''/'' @ d_name in
         if is_group env fs filename \<or> is_metadata env fs filename \<or> is_array env fs filename
            \<or> is_workspace env fs filename
         then ls_c_entries env fs parent_dir_real rest (dir_num + 1)
         else ls_c_entries env fs parent_dir_real rest dir_num))"

definition ls_c :: "environment \<Rightarrow> filesystem \<Rightarrow> bool \<Rightarrow> string \<Rightarrow> error + (Status \<times> int)" where
  "ls_c env fs closedir_fails parent =
     (case real_dir env parent of
        Inl e \<Rightarrow> Inl e
      | Inr parent_dir_real \<Rightarrow>
          (case opendir env fs parent_dir_real of
             None \<Rightarrow> Inr (Ok, 0)
           | Some entries \<Rightarrow>
               (let dir_num = ls_c_entries env fs parent_dir_real entries 0 in
                if closedir_fails then
                  Inr (StorageManagerError ''Cannot close parent directory; '', dir_num)
                else Inr (Ok, dir_num))))"

section \<open>The open-array registry (storage_manager.cc)\<close>

text \<open>
  \<^verbatim>\<open>open_arrays_\<close> maps an array name to its \<^verbatim>\<open>OpenArray\<close>; the fields
  \<^verbatim>\<open>cnt_\<close>, \<^verbatim>\<open>fragment_names_\<close> and \<^verbatim>\<open>consolidation_filelock_\<close> are \<open>oa_cnt\<close>,
  \<open>oa_fragment_names\<close> and \<open>oa_consolidation_filelock\<close>. The mutex functions are in a
  part of utils that is not at hand; the statuses they return are the fields of
  \<open>sync_results\<close>, together with the status of closing the filelock.
\<close>

record OpenArray =
  oa_cnt :: int
  oa_fragment_names :: "string list"
  oa_consolidation_filelock :: int

type_synonym open_arrays = "string \<rightharpoonup> OpenArray"

record sync_results =
  open_array_mtx_lock :: Status
  open_array_mtx_unlock :: Status
  mutex_init :: Status
  mutex_lock :: Status
  mutex_unlock :: Status
  mutex_destroy :: Status
  consolidation_filelock_unlock :: Status

definition array_get_open_array_entry ::
  "sync_results \<Rightarrow> open_arrays \<Rightarrow> string \<Rightarrow> Status \<times> open_arrays" where
  "array_get_open_array_entry sr open_arrays array =
     (if \<not> ok (open_array_mtx_lock sr) then (open_array_mtx_lock sr, open_arrays)
      else
        (case open_arrays array of
           None \<Rightarrow>
             (let open_array = \<lparr>oa_cnt = 0, oa_fragment_names = [], oa_consolidation_filelock = - 1\<rparr> in
              if \<not> ok (mutex_init sr) then (mutex_init sr, open_arrays)
              else
                (let incremented = open_array\<lparr>oa_cnt := oa_cnt open_array + 1\<rparr> in
                 if \<not> ok (open_array_mtx_unlock sr) then
                   (open_array_mtx_unlock sr,
                    open_arrays(array \<mapsto> incremented\<lparr>oa_cnt := oa_cnt incremented - 1\<rparr>))
                 else (Ok, open_arrays(array \<mapsto> incremented))))
         | Some open_array \<Rightarrow>
             (let incremented = open_array\<lparr>oa_cnt := oa_cnt open_array + 1\<rparr> in
              if \<not> ok (open_array_mtx_unlock sr) then
                (open_array_mtx_unlock sr,
                 open_arrays(array \<mapsto> incremented\<lparr>oa_cnt := oa_cnt incremented - 1\<rparr>))
              else (Ok, open_arrays(array \<mapsto> incremented)))))"

definition array_close ::
  "sync_results \<Rightarrow> environment \<Rightarrow> open_arrays \<Rightarrow> string \<Rightarrow> error + (Status \<times> open_arrays)" where
  "array_close sr env open_arrays array =
     (if \<not> ok (open_array_mtx_lock sr) then Inr (open_array_mtx_lock sr, open_arrays)
      else
        (case real_dir env array of
           Inl e \<Rightarrow> Inl e
         | Inr key \<Rightarrow>
             (case open_arrays key of
                None \<Rightarrow>
                  Inr (StorageManagerError ''Cannot close array; Open array entry not found'',
                       open_arrays)
              | Some open_array \<Rightarrow>
                  if \<not> ok (mutex_lock sr) then Inr (mutex_lock sr, open_arrays)
                  else
                    (let decremented = open_array\<lparr>oa_cnt := oa_cnt open_array - 1\<rparr> in
                     if oa_cnt decremented = 0 then
                       (let erased = open_arrays(key := None) in
                        if \<not> ok (mutex_destroy sr) then Inr (mutex_destroy sr, erased)
                        else if \<not> ok (consolidation_filelock_unlock sr) then
                          Inr (consolidation_filelock_unlock sr, erased)
                        else if \<not> ok (open_array_mtx_unlock sr) then
                          Inr (open_array_mtx_unlock sr, erased)
                        else Inr (Ok, erased))
                     else
                       (let kept = open_arrays(key \<mapsto> decremented) in
                        if \<not> ok (mutex_unlock sr) then Inr (mutex_unlock sr, kept)
                        else if \<not> ok (open_array_mtx_unlock sr) then
                          Inr (open_array_mtx_unlock sr, kept)
                        else Inr (Ok, kept))))))"

section \<open>Consolidation (storage_manager.cc)\<close>

text \<open>
  \<^verbatim>\<open>consolidation_finalize\<close> acts on the file system through the filelock,
  \<^verbatim>\<open>Fragment::finalize\<close> (external; it writes the marker file of the new fragment),
  \<^verbatim>\<open>remove\<close> and \<^verbatim>\<open>utils::delete_dir\<close>. The model returns the status together with
  the effects carried out, in order. What each external call answers is a field of
  \<open>finalize_results\<close>.
\<close>

datatype effect =
    ExclusiveLockAcquired
  | NewFragmentFinalized
  | OldMarkerRemoved string
  | LockReleased
  | OldDirectoryDeleted string

record finalize_results =
  st_filelock_lock :: Status
  st_fragment_finalize :: Status
  remove_fails :: "string \<Rightarrow> bool"
  st_filelock_unlock :: Status
  st_delete_dir :: "string \<Rightarrow> Status"

fun remove_markers :: "(string \<Rightarrow> bool) \<Rightarrow> string list \<Rightarrow> Status \<times> effect list" where
  "remove_markers rm_fails [] = (Ok, [])"
| "remove_markers rm_fails (old_fragment_name # rest) =
     (let old_fragment_filename = old_fragment_name @ ''/'' @ TILEDB_FRAGMENT_FILENAME in
      if rm_fails old_fragment_filename then
        (StorageManagerError
           ''Cannot remove fragment file during finalizing consolidation; '', [])
      else
        (case remove_markers rm_fails rest of
           (st, effects) \<Rightarrow> (st, OldMarkerRemoved old_fragment_filename # effects)))"

fun delete_dirs :: "(string \<Rightarrow> Status) \<Rightarrow> string list \<Rightarrow> Status \<times> effect list" where
  "delete_dirs del [] = (Ok, [])"
| "delete_dirs del (old_fragment_name # rest) =
     (if \<not> ok (del old_fragment_name) then (del old_fragment_name, [])
      else
        (case delete_dirs del rest of
           (st, effects) \<Rightarrow> (st, OldDirectoryDeleted old_fragment_name # effects)))"

definition consolidation_finalize ::
  "finalize_results \<Rightarrow> string list \<Rightarrow> Status \<times> effect list" where
  "consolidation_finalize fr old_fragment_names =
     (if length old_fragment_names = 0 then (Ok, [])
      else if \<not> ok (st_filelock_lock fr) then (st_filelock_lock fr, [])
      else if \<not> ok (st_fragment_finalize fr) then
        (st_fragment_finalize fr, [ExclusiveLockAcquired])
      else
        (case remove_markers (remove_fails fr) old_fragment_names of
           (st_rm, removed) \<Rightarrow>
             if \<not> ok st_rm then
               (st_rm, [ExclusiveLockAcquired, NewFragmentFinalized] @ removed)
             else if \<not> ok (st_filelock_unlock fr) then
               (st_filelock_unlock fr, [ExclusiveLockAcquired, NewFragmentFinalized] @ removed)
             else
               (case delete_dirs (st_delete_dir fr) old_fragment_names of
                  (st_del, deleted) \<Rightarrow>
                    (st_del,
                     [ExclusiveLockAcquired, NewFragmentFinalized] @ removed
                       @ [LockReleased] @ deleted))))"

text \<open>
  \<^verbatim>\<open>array_consolidate\<close> calls, in this order, \<^verbatim>\<open>array_init\<close>,
  \<^verbatim>\<open>Array::consolidate\<close>, \<^verbatim>\<open>array_close\<close>, \<^verbatim>\<open>consolidation_finalize\<close> and
  \<^verbatim>\<open>Array::finalize\<close>. Its own logic is the combination of the five statuses, which
  are the arguments here (\<^verbatim>\<open>RETURN_NOT_OK\<close> on the first, then the two tests after
  \<^verbatim>\<open>delete array\<close>). The status of \<^verbatim>\<open>Array::consolidate\<close> is stored and never read.
\<close>

definition array_consolidate ::
  "string \<Rightarrow> Status \<Rightarrow> Status \<Rightarrow> Status \<Rightarrow> Status \<Rightarrow> Status \<Rightarrow> Status" where
  "array_consolidate array_dir st_array_init st_array_consolidate st_array_close
       st_consolidation_finalize st_array_finalize =
     (if \<not> ok st_array_init then st_array_init
      else if \<not> ok st_array_finalize then
        StorageManagerError (''Could not finalize array: '' @ array_dir)
      else if \<not> (ok st_array_close \<and> \<not> ok st_consolidation_finalize) then
        StorageManagerError (''Could not consolidate array: '' @ array_dir)
      else Ok)"

section \<open>Streaming decompression (utils.cc)\<close>

text \<open>
  zlib is an external library. Its contract is all the model keeps: the stream that
  \<^verbatim>\<open>deflate\<close> produces from some bytes is a value from which \<^verbatim>\<open>inflate\<close> gives the
  same bytes back, in order, at most \<^verbatim>\<open>avail_out\<close> of them per call. \<^verbatim>\<open>gzip\<close> of
  utils.cc hands its input to one \<^verbatim>\<open>deflate\<close> call with \<^verbatim>\<open>Z_FINISH\<close>; its output is
  the stream \<open>deflate bytes\<close>.
  \<^verbatim>\<open>TILEDB_GZIP_CHUNK_SIZE\<close> is defined in \<^verbatim>\<open>constants.h\<close>, which is not at hand, and
  is the argument \<open>chunk_size\<close>.

  \<open>gunzip_chunks\<close> is the \<^verbatim>\<open>do ... while(strm.avail_out == 0)\<close> loop of
  \<^verbatim>\<open>gunzip_unknown_output_size\<close>: \<open>out\<close> holds the \<^verbatim>\<open>out_size\<close> bytes written so
  far and \<open>avail_out\<close> is the allocated size of the output buffer. The \<^verbatim>\<open>memcpy\<close> of
  a chunk that does not fit the allocated size is \<open>OutOfBounds\<close>. With a chunk size of
  zero the loop never ends; the function is partial and \<open>None\<close> stands for that.
  \<^verbatim>\<open>realloc\<close> is taken to succeed.
\<close>

datatype z_stream = Deflated string

definition deflate :: "string \<Rightarrow> z_stream" where
  "deflate bytes = Deflated bytes"

fun inflate :: "z_stream \<Rightarrow> nat \<Rightarrow> string \<times> z_stream" where
  "inflate (Deflated pending) avail_out = (take avail_out pending, Deflated (drop avail_out pending))"

definition expand_buffer :: "nat \<Rightarrow> nat" where
  "expand_buffer buffer_allocated_size = buffer_allocated_size * 2"

partial_function (option) gunzip_chunks ::
  "nat \<Rightarrow> z_stream \<Rightarrow> string \<Rightarrow> nat \<Rightarrow> (error + string \<times> nat) option" where
  "gunzip_chunks chunk_size strm out avail_out =
     (case inflate strm chunk_size of
        (chunk, strm') \<Rightarrow>
          (let inflated_bytes = length chunk;
               strm_avail_out = chunk_size - inflated_bytes
           in if inflated_bytes \<noteq> 0 then
                (let avail_out' = (if length out + inflated_bytes > avail_out
                                   then expand_buffer avail_out else avail_out)
                 in if length out + inflated_bytes > avail_out' then Some (Inl OutOfBounds)
                    else if strm_avail_out = 0
                      then gunzip_chunks chunk_size strm' (out @ chunk) avail_out'
                      else Some (Inr (out @ chunk, avail_out')))
              else if strm_avail_out = 0 then gunzip_chunks chunk_size strm' out avail_out
              else Some (Inr (out, avail_out))))"

declare gunzip_chunks.simps [code]

definition gunzip_unknown_output_size ::
  "nat \<Rightarrow> z_stream \<Rightarrow> nat \<Rightarrow> (error + string \<times> nat) option" where
  "gunzip_unknown_output_size chunk_size in_stream avail_out =
     gunzip_chunks chunk_size in_stream [] avail_out"

section \<open>Notions used in the statements\<close>

text \<open>
  A canonical path is \<^verbatim>\<open>/\<close> or a sequence of components, each introduced by one
  slash, none of them empty, \<^verbatim>\<open>.\<close> or \<^verbatim>\<open>..\<close>, and none containing a slash or a NUL.
  An environment is well formed when the working directory and \<^verbatim>\<open>HOME\<close> are canonical
  paths.
\<close>

definition good_token :: "string \<Rightarrow> bool" where
  "good_token t = (t \<noteq> [] \<and> CHR ''/'' \<notin> set t \<and> CHR 0x00 \<notin> set t \<and> t \<noteq> ''.'' \<and> t \<noteq> ''..'')"

definition plain_token :: "string \<Rightarrow> bool" where
  "plain_token t = (t \<noteq> [] \<and> CHR ''/'' \<notin> set t \<and> CHR 0x00 \<notin> set t)"

definition canonical_path :: "string \<Rightarrow> bool" where
  "canonical_path p =
     (p = ''/'' \<or> (\<exists>ts. ts \<noteq> [] \<and> list_all good_token ts \<and> p = concat (map ((#) CHR ''/'') ts)))"

definition wf_environment :: "environment \<Rightarrow> bool" where
  "wf_environment env = (canonical_path (current_dir env) \<and> canonical_path (home env))"

text \<open>
  The comparison of two coordinate tuples as lists, first component first; the
  comparators are shown to compute it.
\<close>

fun lex_cmp :: "'a::ord list \<Rightarrow> 'a list \<Rightarrow> int" where
  "lex_cmp (x # xs) (y # ys) = (if x < y then - 1 else if x > y then 1 else lex_cmp xs ys)"
| "lex_cmp xs ys = 0"

text \<open>
  Floating-point values that are not NaN are linearly ordered: \<open>fp_rank\<close> embeds them,
  order for order, in the lexicographic order of pairs.
\<close>

fun fp_rank :: "fp \<Rightarrow> int \<times> rat" where
  "fp_rank NaN = (2, 0)"
| "fp_rank MinusInfinity = (- 1, 0)"
| "fp_rank (Num p) = (0, p)"
| "fp_rank PlusInfinity = (1, 0)"

text \<open>
  Fragment names as the specification describes them: the directory of the array, then
  \<^verbatim>\<open>__<uuid>_<timestamp>\<close>, the timestamp a decimal number below \<open>2^63\<close> and the
  uuid free of underscores (in TileDB it is made of a MAC address and a thread id).
  \<open>timestamp_of\<close> follows the words of the specification: the last
  underscore-separated field of the base name, read as a decimal number.
\<close>

definition last_field :: "string \<Rightarrow> string" where
  "last_field s = rev (takeWhile (\<lambda>c. c \<noteq> CHR ''_'') (rev s))"

definition timestamp_of :: "string \<Rightarrow> int" where
  "timestamp_of name = dec_value (last_field (basename name))"

definition wf_uuid :: "string \<Rightarrow> bool" where
  "wf_uuid u = (CHR ''_'' \<notin> set u \<and> CHR ''/'' \<notin> set u \<and> CHR 0x00 \<notin> set u)"

definition wf_timestamp :: "string \<Rightarrow> bool" where
  "wf_timestamp ds = (ds \<noteq> [] \<and> list_all isdigit ds \<and> dec_value ds < 2 ^ 63)"

definition is_fragment_name :: "string \<Rightarrow> string \<Rightarrow> bool" where
  "is_fragment_name dir name =
     (\<exists>u ds. name = dir @ ''/__'' @ u @ ''_'' @ ds \<and> wf_uuid u \<and> wf_timestamp ds)"

text \<open>
  Repeated opening and closing of one array. \<open>locks_ok\<close> says that the calls that
  take or create a mutex, and the release of the registry mutex, succeed; the registry
  after a close does not depend on the other statuses.
\<close>

fun open_times :: "sync_results \<Rightarrow> open_arrays \<Rightarrow> string \<Rightarrow> nat \<Rightarrow> open_arrays" where
  "open_times sr reg array 0 = reg"
| "open_times sr reg array (Suc n) =
     open_times sr (snd (array_get_open_array_entry sr reg array)) array n"

fun close_times ::
  "sync_results \<Rightarrow> environment \<Rightarrow> open_arrays \<Rightarrow> string \<Rightarrow> nat \<Rightarrow> error + open_arrays" where
  "close_times sr env reg array 0 = Inr reg"
| "close_times sr env reg array (Suc n) =
     (case array_close sr env reg array of
        Inl e \<Rightarrow> Inl e
      | Inr (st, reg') \<Rightarrow> close_times sr env reg' array n)"

definition locks_ok :: "sync_results \<Rightarrow> bool" where
  "locks_ok sr =
     (ok (open_array_mtx_lock sr) \<and> ok (open_array_mtx_unlock sr) \<and> ok (mutex_init sr)
      \<and> ok (mutex_lock sr))"

definition fresh_entry :: "int \<Rightarrow> OpenArray" where
  "fresh_entry n = \<lparr>oa_cnt = n, oa_fragment_names = [], oa_consolidation_filelock = - 1\<rparr>"

definition marker_of :: "string \<Rightarrow> string" where
  "marker_of old_fragment_name = old_fragment_name @ ''/'' @ TILEDB_FRAGMENT_FILENAME"

text \<open>
  Concrete states for the examples.
\<close>

definition env0 :: environment where
  "env0 = \<lparr>current_dir = ''/tmp'', home = ''/root''\<rparr>"

definition fs0 :: filesystem where
  "fs0 = [(''/'', Directory), (''/tmp'', Directory),
          (''/w'', Directory), (''/w/__tiledb_workspace.tdb'', File []),
          (''/w/g'', Directory), (''/w/g/__tiledb_group.tdb'', File []),
          (''/w/g/a'', Directory), (''/w/g/a/__array_schema.tdb'', File ''schema''),
          (''/w/g/a/__consolidation_lock'', File []),
          (''/w/notes.txt'', File ''x'')]"

definition fs_root_workspace :: filesystem where
  "fs_root_workspace =
     [(''/'', Directory), (''/tmp'', Directory), (''/__tiledb_workspace.tdb'', File [])]"

definition example_fragments :: "string list" where
  "example_fragments =
     [''/w/a/__0a0027000000140737_5'', ''/w/a/__0a0027000000140737_1'',
      ''/w/a/__0a0027000000140737_3'', ''/w/a/__0a0027000000140737_2'',
      ''/w/a/__0a0027000000140737_4'']"

definition example_array :: filesystem where
  "example_array =
     [(''/'', Directory), (''/tmp'', Directory),
      (''/w'', Directory), (''/w/__tiledb_workspace.tdb'', File []),
      (''/w/a'', Directory), (''/w/a/__array_schema.tdb'', File ''schema''),
      (''/w/a/__consolidation_lock'', File []),
      (''/w/a/__0a0027000000140737_5'', Directory),
      (''/w/a/__0a0027000000140737_5/__tiledb_fragment.tdb'', File []),
      (''/w/a/__0a0027000000140737_1'', Directory),
      (''/w/a/__0a0027000000140737_1/__tiledb_fragment.tdb'', File []),
      (''/w/a/__0a0027000000140737_3'', Directory),
      (''/w/a/__0a0027000000140737_3/__tiledb_fragment.tdb'', File []),
      (''/w/a/__0a0027000000140737_2'', Directory),
      (''/w/a/__0a0027000000140737_2/__tiledb_fragment.tdb'', File []),
      (''/w/a/__0a0027000000140737_4'', Directory),
      (''/w/a/__0a0027000000140737_4/__tiledb_fragment.tdb'', File [])]"

definition locks_succeed :: sync_results where
  "locks_succeed = \<lparr>open_array_mtx_lock = Ok, open_array_mtx_unlock = Ok, mutex_init = Ok,
              mutex_lock = Ok, mutex_unlock = Ok, mutex_destroy = Ok,
              consolidation_filelock_unlock =
                StorageManagerError
                  ''Cannot unlock consolidation filelock; Cannot close filelock''\<rparr>"

definition finalize_ok :: finalize_results where
  "finalize_ok = \<lparr>st_filelock_lock = Ok, st_fragment_finalize = Ok, remove_fails = (\<lambda>f. False),
                  st_filelock_unlock = Ok, st_delete_dir = (\<lambda>d. Ok)\<rparr>"

chapter \<open>Properties\<close>

section \<open>Canonical paths are fixed points of \<^verbatim>\<open>real_dir\<close>\<close>

lemma unique_from_no_slash:
  "CHR ''/'' \<notin> set s \<Longrightarrow>
   unique_from both_slashes r (s @ rest) = s @ unique_from both_slashes (last (r # s)) rest"
  by (induction s arbitrary: r) (auto simp: both_slashes_def)

lemma unique_from_canonical:
  "list_all good_token ts \<Longrightarrow>
   unique_from both_slashes r (concat (map ((#) CHR ''/'') ts)) =
     (if r = CHR ''/'' then drop 1 (concat (map ((#) CHR ''/'') ts))
      else concat (map ((#) CHR ''/'') ts))"
proof (induction ts arbitrary: r)
  case Nil
  then show ?case by simp
next
  case (Cons t ts)
  then have ts: "list_all good_token ts" and gt: "good_token t" by simp_all
  from gt have t: "t \<noteq> []" "CHR ''/'' \<notin> set t" by (simp_all add: good_token_def)
  have l: "last (c # t) \<noteq> CHR ''/''" for c
  proof -
    have "last (c # t) = last t" using t(1) by simp
    moreover have "last t \<in> set t" using t(1) by simp
    ultimately show ?thesis using t(2) by auto
  qed
  have "unique_from both_slashes CHR ''/'' (t @ concat (map ((#) CHR ''/'') ts))
        = t @ concat (map ((#) CHR ''/'') ts)"
    using unique_from_no_slash[OF t(2)] Cons.IH[OF ts] l by simp
  moreover have "both_slashes r CHR ''/'' = (r = CHR ''/'')"
    by (simp add: both_slashes_def)
  ultimately show ?case using Cons.IH[OF ts, of "last t"] l[of r] unique_from_no_slash[OF t(2), of r]
    by simp
qed

lemma dedup_canonical:
  assumes "list_all good_token ts"
  shows "adjacent_slashes_dedup (CHR ''/'' # concat (map ((#) CHR ''/'') ts))
         = (if ts = [] then ''/'' else concat (map ((#) CHR ''/'') ts))"
  using unique_from_canonical[OF assms, of "CHR ''/''"]
  by (cases ts) (auto simp: adjacent_slashes_dedup_def both_slashes_def)

lemma dedup_canonical':
  assumes "list_all good_token ts"
  shows "adjacent_slashes_dedup (concat (map ((#) CHR ''/'') ts)) = concat (map ((#) CHR ''/'') ts)"
  using unique_from_canonical[OF assms, of "CHR ''/''"]
  by (cases ts) (auto simp: adjacent_slashes_dedup_def both_slashes_def)

lemma tokenize_no_slash:
  "CHR ''/'' \<notin> set s \<Longrightarrow> tokenize (s @ rest) cur = tokenize rest (cur @ s)"
  by (induction s arbitrary: cur) auto

lemma c_str_good: "good_token t \<Longrightarrow> c_str t = t"
  by (auto simp: good_token_def c_str_def)

lemma tokenize_canonical:
  "list_all good_token ts \<Longrightarrow>
   tokenize (concat (map ((#) CHR ''/'') ts)) cur =
     (if c_str cur \<noteq> [] then [c_str cur] else []) @ ts"
proof (induction ts arbitrary: cur)
  case Nil
  then show ?case by simp
next
  case (Cons t ts)
  then have t: "good_token t" and ts: "list_all good_token ts" by auto
  from t have ns: "CHR ''/'' \<notin> set t" and ne: "t \<noteq> []" by (auto simp: good_token_def)
  have "tokenize (t @ concat (map ((#) CHR ''/'') ts)) [] = t # ts"
    using tokenize_no_slash[OF ns, of _ "[]"] Cons.IH[OF ts, of t] c_str_good[OF t] ne by simp
  then show ?case by simp
qed

lemma purge_tokens_good:
  "list_all good_token ts \<Longrightarrow> purge_tokens ts fin = Some (fin @ ts)"
  by (induction ts arbitrary: fin) (auto simp: good_token_def)

lemma append_tokens_pos:
  "i \<noteq> 0 \<Longrightarrow> append_tokens path i ts = path @ concat (map ((#) CHR ''/'') ts)"
  by (induction ts arbitrary: path i) auto

lemma append_tokens_root:
  "append_tokens ''/'' 0 ts = (if ts = [] then ''/'' else concat (map ((#) CHR ''/'') ts))"
  by (cases ts) (auto simp: append_tokens_pos)

lemma purge_dots_canonical:
  assumes "list_all good_token ts" "ts \<noteq> []"
  shows "purge_dots_from_path (concat (map ((#) CHR ''/'') ts)) = Inr (concat (map ((#) CHR ''/'') ts))"
proof -
  obtain t ts' where ts: "ts = t # ts'" using assms(2) by (cases ts) auto
  with assms have t: "good_token t" and ts': "list_all good_token ts'" by auto
  from t have ns: "CHR ''/'' \<notin> set t" and ne: "t \<noteq> []" by (auto simp: good_token_def)
  let ?p = "concat (map ((#) CHR ''/'') ts)"
  have p: "?p = CHR ''/'' # t @ concat (map ((#) CHR ''/'') ts')" by (simp add: ts)
  have tok: "tokenize (tl ?p) [] = ts"
    using tokenize_no_slash[OF ns, of _ "[]"] tokenize_canonical[OF ts', of t] c_str_good[OF t] ne
    by (simp add: ts)
  have "?p \<noteq> ''/''" using ne by (simp add: p)
  then show ?thesis
    using tok purge_tokens_good[OF assms(1), of "[]"] append_tokens_root[of ts] assms(2)
    by (simp add: purge_dots_from_path_def p)
qed

lemma real_dir_canonical:
  assumes "canonical_path p"
  shows "real_dir env p = Inr p"
proof (cases "p = ''/''")
  case True
  then show ?thesis by (simp add: real_dir_def)
next
  case False
  with assms obtain ts where ts: "ts \<noteq> []" "list_all good_token ts"
    and p: "p = concat (map ((#) CHR ''/'') ts)"
    by (auto simp: canonical_path_def)
  obtain t ts' where tts: "ts = t # ts'" using ts(1) by (cases ts) auto
  with ts have "t \<noteq> []" by (auto simp: good_token_def)
  then obtain c cs where t: "t = c # cs" by (cases t) auto
  have hd: "p = CHR ''/'' # c # cs @ concat (map ((#) CHR ''/'') ts')" by (simp add: p tts t)
  have sw: "starts_with p ''/''" by (simp add: starts_with_def hd)
  have ne: "p \<noteq> ''''" "p \<noteq> ''.''" "p \<noteq> ''./''" "p \<noteq> ''~''"
    using hd by auto
  have "c \<noteq> CHR ''/''" using ts tts t by (auto simp: good_token_def)
  show ?thesis
    using sw ne False dedup_canonical[OF ts(2)] ts(1) purge_dots_canonical[OF ts(2) ts(1)]
    by (simp add: real_dir_def p)
qed

section \<open>\<^verbatim>\<open>real_dir\<close> returns a canonical path or the empty string\<close>

lemma c_str_plain:
  "CHR ''/'' \<notin> set cur \<Longrightarrow> c_str cur \<noteq> [] \<Longrightarrow> plain_token (c_str cur)"
  unfolding plain_token_def c_str_def
  by (auto dest: set_takeWhileD)

lemma tokenize_plain:
  "CHR ''/'' \<notin> set cur \<Longrightarrow> list_all plain_token (tokenize s cur)"
  by (induction s arbitrary: cur) (auto simp: c_str_plain)

lemma purge_tokens_output:
  "purge_tokens ts fin = Some out \<Longrightarrow> list_all good_token fin \<Longrightarrow> list_all plain_token ts \<Longrightarrow>
   list_all good_token out"
proof (induction ts arbitrary: fin)
  case Nil
  then show ?case by simp
next
  case (Cons t ts)
  have bl: "list_all good_token (butlast fin)"
    using Cons.prems(2) by (auto simp: list_all_iff dest: in_set_butlastD)
  show ?case
  proof (cases "t = ''.''")
    case True
    with Cons show ?thesis by simp
  next
    case nd: False
    show ?thesis
    proof (cases "t = ''..''")
      case True
      with Cons.prems nd Cons.IH[of "butlast fin"] bl show ?thesis
        by (auto split: if_splits)
    next
      case False
      with nd Cons.prems(3) have "good_token t"
        by (simp add: good_token_def plain_token_def)
      with Cons.prems False nd Cons.IH[of "fin @ [t]"] show ?thesis by simp
    qed
  qed
qed

lemma purge_dots_output:
  assumes "x \<noteq> []" "hd x = CHR ''/''"
  shows "\<exists>r. purge_dots_from_path x = Inr r \<and> (r = [] \<or> canonical_path r)"
proof (cases "x = ''/''")
  case True
  then show ?thesis by (simp add: purge_dots_from_path_def canonical_path_def)
next
  case False
  have pl: "list_all plain_token (tokenize (tl x) [])" by (rule tokenize_plain) simp
  show ?thesis
  proof (cases "purge_tokens (tokenize (tl x) []) []")
    case None
    with assms False show ?thesis by (simp add: purge_dots_from_path_def)
  next
    case (Some out)
    then have "list_all good_token out" using purge_tokens_output pl by fastforce
    then have "canonical_path (append_tokens ''/'' 0 out)"
      unfolding canonical_path_def append_tokens_root by auto
    with assms False Some show ?thesis by (simp add: purge_dots_from_path_def)
  qed
qed

lemma canonical_path_hd: "canonical_path p \<Longrightarrow> p \<noteq> [] \<and> hd p = CHR ''/''"
  unfolding canonical_path_def
proof (elim disjE exE conjE)
  assume "p = ''/''" then show ?thesis by simp
next
  fix ts assume "ts \<noteq> []" and "p = concat (map ((#) CHR ''/'') ts)"
  then show ?thesis by (cases ts) auto
qed

lemma dedup_hd: "x \<noteq> [] \<Longrightarrow> adjacent_slashes_dedup x \<noteq> [] \<and> hd (adjacent_slashes_dedup x) = hd x"
  by (cases x) (auto simp: adjacent_slashes_dedup_def)

lemma purge_dedup_output:
  assumes "x \<noteq> []" "hd x = CHR ''/''"
  shows "\<exists>r. purge_dots_from_path (adjacent_slashes_dedup x) = Inr r \<and> (r = [] \<or> canonical_path r)"
proof -
  from dedup_hd[OF assms(1)] assms(2)
  have "adjacent_slashes_dedup x \<noteq> []" "hd (adjacent_slashes_dedup x) = CHR ''/''" by simp_all
  then show ?thesis by (rule purge_dots_output)
qed

lemma real_dir_output:
  assumes "wf_environment env"
  shows "\<exists>r. real_dir env p = Inr r \<and> (r = [] \<or> canonical_path r)"
proof -
  from assms have c: "canonical_path (current_dir env)" and h: "canonical_path (home env)"
    by (simp_all add: wf_environment_def)
  note ch = canonical_path_hd[OF c] and hh = canonical_path_hd[OF h]
  have root: "canonical_path ''/''" by (simp add: canonical_path_def)
  define ret where "ret = (if starts_with p ''/'' then ''/'' @ p
            else if starts_with p ''~/'' then home env @ drop 1 p
            else if starts_with p ''./'' then current_dir env @ drop 1 p
            else current_dir env @ ''/'' @ p)"
  have "ret \<noteq> []" "hd ret = CHR ''/''" using ch hh by (auto simp: ret_def)
  then have main: "\<exists>r. purge_dots_from_path (adjacent_slashes_dedup ret) = Inr r \<and> (r = [] \<or> canonical_path r)"
    by (rule purge_dedup_output)
  show ?thesis
  proof (cases "p = [] \<or> p = ''.'' \<or> p = ''./''")
    case True
    then have "real_dir env p = Inr (current_dir env)" by (simp add: real_dir_def)
    with c show ?thesis by simp
  next
    case easy: False
    show ?thesis
    proof (cases "p = ''~''")
      case True
      then have "real_dir env p = Inr (home env)" by (simp add: real_dir_def)
      with h show ?thesis by simp
    next
      case tilde: False
      show ?thesis
      proof (cases "p = ''/''")
        case True
        then have "real_dir env p = Inr ''/''" by (simp add: real_dir_def)
        with root show ?thesis by simp
      next
        case False
        with easy tilde have "real_dir env p = purge_dots_from_path (adjacent_slashes_dedup ret)"
          unfolding real_dir_def Let_def ret_def by simp
        with main show ?thesis by simp
      qed
    qed
  qed
qed

lemma wf_env0: "wf_environment env0"
proof -
  have "canonical_path ''/tmp''"
    unfolding canonical_path_def
    by (rule disjI2, rule exI[of _ "[''tmp'']"]) (simp add: good_token_def)
  moreover have "canonical_path ''/root''"
    unfolding canonical_path_def
    by (rule disjI2, rule exI[of _ "[''root'']"]) (simp add: good_token_def)
  ultimately show ?thesis by (simp add: wf_environment_def env0_def)
qed

lemma rd_ex: "real_dir env0 ''/a//b/../c/./d'' = Inr ''/a/c/d''"
  by (simp add: real_dir_def env0_def starts_with_def adjacent_slashes_dedup_def both_slashes_def
      purge_dots_from_path_def c_str_def)

section \<open>Idempotence of canonicalisation\<close>

text \<open>
  C6. The claim is that \<^verbatim>\<open>real_dir\<close> applied to its own output returns that output,
  for every input, also one for which it returns the empty string. It does not: for
  the invalid path \<^verbatim>\<open>/..\<close> the result is the empty string, and \<^verbatim>\<open>real_dir\<close> of the
  empty string is the working directory.
\<close>

theorem real_dir_not_idempotent_on_invalid:
  "real_dir env0 ''/..'' = Inr [] \<and> real_dir env0 [] = Inr ''/tmp''
   \<and> real_dir env0 [] \<noteq> real_dir env0 ''/..''"
  by (simp add: real_dir_def env0_def starts_with_def adjacent_slashes_dedup_def both_slashes_def
      purge_dots_from_path_def c_str_def)

text \<open>
  C6, amended. In a well-formed environment \<^verbatim>\<open>real_dir\<close> always returns, and when its
  result is not the empty string (the input is valid), applying \<^verbatim>\<open>real_dir\<close> to the
  result returns the result.
\<close>

theorem real_dir_idempotent_valid:
  assumes "wf_environment env"
  shows "\<exists>r. real_dir env p = Inr r \<and> (r \<noteq> [] \<longrightarrow> real_dir env r = Inr r)"
  using real_dir_output[OF assms, of p] real_dir_canonical[of _ env] by auto

theorem real_dir_idempotent_valid_witness:
  "wf_environment env0 \<and> real_dir env0 ''/a//b/../c/./d'' = Inr ''/a/c/d''
   \<and> real_dir env0 ''/a/c/d'' = Inr ''/a/c/d''"
proof -
  from real_dir_idempotent_valid[OF wf_env0, of "''/a//b/../c/./d''"]
  have "real_dir env0 ''/a/c/d'' = Inr ''/a/c/d''" by (simp add: rd_ex)
  with wf_env0 rd_ex show ?thesis by simp
qed

section \<open>Sorting fragment names\<close>

lemma isdigit_facts:
  assumes "isdigit c"
  shows "c \<noteq> CHR 0x00" "\<not> isspace c" "c \<noteq> CHR ''-''" "c \<noteq> CHR ''+''" "c \<noteq> CHR ''_''"
    "c \<noteq> CHR ''/''" "0 \<le> digit_value c"
  using assms by (auto simp: isdigit_def isspace_def digit_value_def)

lemma digits_plain:
  assumes "list_all isdigit ds"
  shows "CHR ''/'' \<notin> set ds" "CHR ''_'' \<notin> set ds" "CHR 0x00 \<notin> set ds"
proof -
  have d: "\<And>c. c \<in> set ds \<Longrightarrow> isdigit c" using assms by (simp add: list_all_iff)
  show "CHR ''/'' \<notin> set ds" using d isdigit_facts(6) by blast
  show "CHR ''_'' \<notin> set ds" using d isdigit_facts(5) by blast
  show "CHR 0x00 \<notin> set ds" using d isdigit_facts(1) by blast
qed

lemma foldl_dec_nonneg:
  "0 \<le> a \<Longrightarrow> list_all isdigit ds \<Longrightarrow> 0 \<le> foldl (\<lambda>a c. 10 * a + digit_value c) a ds"
proof (induction ds arbitrary: a)
  case Nil
  then show ?case by simp
next
  case (Cons d ds)
  then have "0 \<le> digit_value d" by (simp add: isdigit_facts)
  with Cons.prems have "0 \<le> 10 * a + digit_value d" by simp
  with Cons show ?case by simp
qed

lemma sscanf_lld_timestamp:
  assumes "wf_timestamp ds"
  shows "sscanf_lld ds = Some (dec_value ds)"
proof -
  from assms obtain d ds' where ds: "ds = d # ds'" and d: "isdigit d" and all: "list_all isdigit ds"
    and bound: "dec_value ds < 2 ^ 63"
    by (cases ds) (auto simp: wf_timestamp_def)
  have nn: "0 \<le> dec_value ds"
    unfolding dec_value_def using all by (intro foldl_dec_nonneg) simp_all
  have c: "c_str ds = ds"
    unfolding c_str_def using all by (auto simp: list_all_iff isdigit_facts)
  have sp: "dropWhile isspace ds = ds"
    using d by (simp add: ds isdigit_facts)
  have tw: "takeWhile isdigit ds = ds"
    using all by (auto simp: list_all_iff)
  have hd: "hd ds \<noteq> CHR ''-''" "hd ds \<noteq> CHR ''+''" "ds \<noteq> []"
    using d by (simp_all add: ds isdigit_facts)
  have "strtoll_clamp (dec_value ds) = dec_value ds"
    using nn bound by (simp add: strtoll_clamp_def)
  then show ?thesis
    using hd by (simp add: sscanf_lld_def c sp tw)
qed

lemma timestamp_field_first_underscore:
  "CHR ''_'' \<notin> set u \<Longrightarrow>
   timestamp_field (u @ CHR ''_'' # ds) j s
     = Some (take (length s - (j + length u)) (drop (j + length u + 1) s))"
  by (induction u arbitrary: j) auto

lemma timestamp_field_fragment:
  assumes "CHR ''_'' \<notin> set u"
  shows "timestamp_field (drop 2 (''__'' @ u @ ''_'' @ ds)) 2 (''__'' @ u @ ''_'' @ ds) = Some ds"
  using timestamp_field_first_underscore[OF assms, of ds 2 "''__'' @ u @ ''_'' @ ds"]
  by simp

lemma timestamp_of_fragment:
  assumes "wf_uuid u" "wf_timestamp ds"
  shows "timestamp_of (dir @ ''/__'' @ u @ ''_'' @ ds) = dec_value ds"
proof -
  from assms(2) have dig: "list_all isdigit ds" by (simp add: wf_timestamp_def)
  let ?base = "''__'' @ u @ ''_'' @ ds"
  have ns: "\<forall>c\<in>set (rev ?base). c \<noteq> CHR ''/''"
    using assms(1) digits_plain[OF dig] by (auto simp: wf_uuid_def)
  have "rev (dir @ ''/__'' @ u @ ''_'' @ ds) = rev ?base @ CHR ''/'' # rev dir" by simp
  then have "takeWhile (\<lambda>c. c \<noteq> CHR ''/'') (rev (dir @ ''/__'' @ u @ ''_'' @ ds)) = rev ?base"
    using takeWhile_tail[of "\<lambda>c. c \<noteq> CHR ''/''" "CHR ''/''" "rev ?base" "rev dir"] ns by simp
  then have b: "basename (dir @ ''/__'' @ u @ ''_'' @ ds) = ?base"
    unfolding basename_def by (simp only: rev_rev_ident)
  have nu: "\<forall>c\<in>set (rev ds). c \<noteq> CHR ''_''" using digits_plain[OF dig] by auto
  have "rev ?base = rev ds @ CHR ''_'' # rev (''__'' @ u)" by simp
  then have "takeWhile (\<lambda>c. c \<noteq> CHR ''_'') (rev ?base) = rev ds"
    using takeWhile_tail[of "\<lambda>c. c \<noteq> CHR ''_''" "CHR ''_''" "rev ds" "rev (''__'' @ u)"] nu by simp
  then have "last_field ?base = ds"
    unfolding last_field_def by (simp only: rev_rev_ident)
  with b show ?thesis by (simp add: timestamp_of_def)
qed

lemma scan_back_fragment:
  "CHR ''/'' \<notin> set base \<Longrightarrow> k \<le> length base \<Longrightarrow>
   scan_back (dir @ CHR ''/'' # base) (int (length dir + k)) = int (length dir)"
proof (induction k)
  case 0
  show ?case by (subst scan_back.simps) (simp add: nth_append)
next
  case (Suc k)
  let ?s = "dir @ CHR ''/'' # base"
  define p where "p = int (length dir + Suc k)"
  have pos: "p > 0" by (simp add: p_def)
  from Suc.prems have "base ! k \<noteq> CHR ''/''" by (metis Suc_le_lessD nth_mem)
  moreover have "?s ! (length dir + Suc k) = base ! k"
    by (simp add: nth_append)
  moreover have "nat p = length dir + Suc k" unfolding p_def by (rule nat_int)
  ultimately have n: "?s ! nat p \<noteq> CHR ''/''" by metis
  have m: "p - 1 = int (length dir + k)" by (simp add: p_def)
  have "scan_back ?s p = scan_back ?s (p - 1)"
    using pos n by (subst scan_back.simps) (simp only: simp_thms if_True)
  also have "\<dots> = int (length dir)"
    unfolding m using Suc by simp
  finally show ?case unfolding p_def .
qed

lemma canonical_path_snoc:
  assumes "canonical_path dir" "dir \<noteq> ''/''" "good_token base"
  shows "canonical_path (dir @ CHR ''/'' # base)"
proof -
  from assms obtain ts where ts: "ts \<noteq> []" "list_all good_token ts"
    and p: "dir = concat (map ((#) CHR ''/'') ts)"
    by (auto simp: canonical_path_def)
  have "dir @ CHR ''/'' # base = concat (map ((#) CHR ''/'') (ts @ [base]))" by (simp add: p)
  moreover have "list_all good_token (ts @ [base])" using ts assms(3) by simp
  ultimately show ?thesis unfolding canonical_path_def by blast
qed

lemma parent_dir_of_real:
  assumes rd: "real_dir env p = Inr (dir @ CHR ''/'' # base)"
    and ne: "base \<noteq> []" and ns: "CHR ''/'' \<notin> set base"
  shows "parent_dir env p = Inr dir"
proof -
  let ?s = "dir @ CHR ''/'' # base"
  have pos0: "int (length ?s) - 1 = int (length dir + length base)" by simp
  have "?s ! (length dir + length base) = last base"
    using ne by (simp add: nth_append last_conv_nth)
  moreover have "last base \<in> set base" using ne by simp
  ultimately have lst: "?s ! nat (int (length dir + length base)) \<noteq> CHR ''/''"
    using ns by (metis nat_int)
  have sb: "scan_back ?s (int (length dir + length base)) = int (length dir)"
    by (rule scan_back_fragment[OF ns]) simp
  show ?thesis
    unfolding parent_dir_def rd Let_def pos0
    using lst sb by simp
qed

lemma parent_dir_fragment:
  assumes "canonical_path dir" "dir \<noteq> ''/''" "good_token base"
  shows "parent_dir env (dir @ CHR ''/'' # base) = Inr dir"
proof -
  from assms(3) have ne: "base \<noteq> []" and ns: "CHR ''/'' \<notin> set base" by (simp_all add: good_token_def)
  have "real_dir env (dir @ CHR ''/'' # base) = Inr (dir @ CHR ''/'' # base)"
    by (rule real_dir_canonical) (rule canonical_path_snoc[OF assms])
  then show ?thesis by (rule parent_dir_of_real) (rule ne, rule ns)
qed

lemma fragment_base_good:
  assumes "wf_uuid u" "wf_timestamp ds"
  shows "good_token (''__'' @ u @ ''_'' @ ds)"
proof -
  from assms(2) have dig: "list_all isdigit ds" by (simp add: wf_timestamp_def)
  show ?thesis
    using assms(1) digits_plain[OF dig] by (auto simp: good_token_def wf_uuid_def)
qed

lemma fragment_timestamps_wf:
  assumes "canonical_path dir" "dir \<noteq> ''/''"
  shows "list_all (is_fragment_name dir) names \<Longrightarrow>
   fragment_timestamps env names i t = Inr (zip (map timestamp_of names) [i..<i + length names])"
proof (induction names arbitrary: i t)
  case Nil
  then show ?case by simp
next
  case (Cons name names)
  then obtain u ds where name: "name = dir @ ''/__'' @ u @ ''_'' @ ds" and u: "wf_uuid u"
    and ds: "wf_timestamp ds"
    by (auto simp: is_fragment_name_def)
  let ?base = "''__'' @ u @ ''_'' @ ds"
  have nm: "name = dir @ CHR ''/'' # ?base" by (simp add: name)
  have pd: "parent_dir env name = Inr dir"
    unfolding nm by (rule parent_dir_fragment[OF assms fragment_base_good[OF u ds]])
  have st: "drop (length dir + 1) name = ?base" by (simp add: nm)
  have sw: "starts_with ?base ''__''" by (simp add: starts_with_def)
  have tf: "timestamp_field (drop 2 ?base) 2 ?base = Some ds"
    using u by (intro timestamp_field_fragment) (simp add: wf_uuid_def)
  have sc: "sscanf_lld ds = Some (timestamp_of name)"
    using sscanf_lld_timestamp[OF ds] timestamp_of_fragment[OF u ds, of dir] by (simp add: name)
  have len: "\<not> length dir + 1 > length name" by (simp add: nm)
  have IH: "fragment_timestamps env names (Suc i) (timestamp_of name)
        = Inr (zip (map timestamp_of names) [Suc i..<Suc i + length names])"
    using Cons.IH Cons.prems by simp
  have "[i..<i + Suc (length names)] = i # [Suc i..<i + Suc (length names)]"
    by (rule upt_conv_Cons) simp
  then have upt: "[i..<i + length (name # names)] = i # [Suc i..<Suc i + length names]"
    by simp
  show ?case
    unfolding fragment_timestamps.simps pd sum.case upt
    using len by (simp only: if_False Let_def st sw tf sc IH option.case sum.case not_True_eq_False
        list.map zip_Cons_Cons)
qed

lemma insort_pair:
  fixes S :: "('k::linorder \<times> nat) list"
  assumes "\<forall>q\<in>set S. k < snd q \<and> f (g q) = fst q" "f (g (t, k)) = t"
  shows "map g (insort (t, k) S) = insort_key f (g (t, k)) (map g S)"
  using assms(1)
proof (induction S)
  case Nil
  then show ?case by simp
next
  case (Cons q S)
  obtain t' k' where q: "q = (t', k')" by (cases q)
  with Cons.prems have k: "k < k'" and fq: "f (g (t', k')) = t'" by auto
  have "((t, k) \<le> (t', k')) = (t \<le> t')" using k by (auto simp: less_eq_prod_simp)
  with Cons fq assms(2) show ?case by (simp add: q)
qed

lemma sort_pairs_is_sort_key:
  fixes ps :: "('k::linorder \<times> nat) list"
  assumes "sorted_wrt (<) (map snd ps)" "\<forall>q\<in>set ps. f (g q) = fst q"
  shows "map g (sort ps) = sort_key f (map g ps)"
  using assms
proof (induction ps)
  case Nil
  then show ?case by simp
next
  case (Cons p ps)
  obtain t k where p: "p = (t, k)" by (cases p)
  from Cons.prems have later: "\<forall>q\<in>set (sort ps). k < snd q \<and> f (g q) = fst q"
    by (auto simp: p)
  from Cons.prems have fp: "f (g (t, k)) = t" by (simp add: p)
  have "map g (sort (p # ps)) = map g (insort (t, k) (sort ps))" by (simp add: p)
  also have "\<dots> = insort_key f (g (t, k)) (map g (sort ps))"
    using insort_pair[of "sort ps" k f g t] later fp by blast
  also have "map g (sort ps) = sort_key f (map g ps)" using Cons by simp
  finally show ?case by (simp add: p)
qed

lemma sort_indexed:
  "map (\<lambda>p. xs ! snd p) (sort (zip (map f xs) [0..<length xs])) = sort_key f xs"
proof -
  let ?ps = "zip (map f xs) [0..<length xs]"
  have "sorted_wrt (<) (map snd ?ps)" by simp
  moreover have "\<forall>q\<in>set ?ps. f (xs ! snd q) = fst q"
    by (auto simp: in_set_zip)
  ultimately have "map (\<lambda>p. xs ! snd p) (sort ?ps) = sort_key f (map (\<lambda>p. xs ! snd p) ?ps)"
    by (rule sort_pairs_is_sort_key)
  moreover have "map (\<lambda>p. xs ! snd p) ?ps = xs"
    by (rule nth_equalityI) simp_all
  ultimately show ?thesis by simp
qed

text \<open>
  C4. The claim takes the timestamp to be the last underscore-separated field of the
  base name. \<^verbatim>\<open>sort_fragment_names\<close> reads it after the first underscore that follows
  the \<^verbatim>\<open>__\<close> prefix. When the uuid contains an underscore the two differ: for
  \<^verbatim>\<open>__u_9_3\<close> the code reads 9 where the last field is 3, and for \<^verbatim>\<open>__u_v_3\<close> the
  text \<^verbatim>\<open>v_3\<close> is not a number, so that the timestamp of the fragment before is kept.
  Both lists come back in the order given, where the order by last field puts the second
  name first.
\<close>

theorem sort_fragment_names_first_underscore:
  "sort_fragment_names env0 0 [''/a/__x_5'', ''/a/__u_v_3''] = Inr [''/a/__x_5'', ''/a/__u_v_3'']
   \<and> sort_key timestamp_of [''/a/__x_5'', ''/a/__u_v_3''] = [''/a/__u_v_3'', ''/a/__x_5'']
   \<and> sort_fragment_names env0 0 [''/a/__x_5'', ''/a/__u_9_3''] = Inr [''/a/__x_5'', ''/a/__u_9_3'']
   \<and> sort_key timestamp_of [''/a/__x_5'', ''/a/__u_9_3''] = [''/a/__u_9_3'', ''/a/__x_5'']
   \<and> timestamp_of ''/a/__x_5'' = 5 \<and> timestamp_of ''/a/__u_v_3'' = 3
   \<and> timestamp_of ''/a/__u_9_3'' = 3"
  by (simp add: sort_fragment_names_def parent_dir_def real_dir_def env0_def starts_with_def
      adjacent_slashes_dedup_def both_slashes_def purge_dots_from_path_def c_str_def
      scan_back.simps sscanf_lld_def isspace_def isdigit_def dec_value_def digit_value_def
      strtoll_clamp_def timestamp_of_def basename_def last_field_def)

text \<open>
  C4, amended. For fragment names of the form \<^verbatim>\<open>__<uuid>_<timestamp>\<close> whose uuid
  contains no underscore (the timestamp a decimal number below \<open>2^63\<close>) in a canonical
  array directory, \<^verbatim>\<open>sort_fragment_names\<close> returns the names sorted stably by
  ascending timestamp (\<open>sort_key\<close> is the stable insertion sort of the library), whatever
  the initial value of \<^verbatim>\<open>t\<close>. The timestamp is the text after the first underscore
  that follows the prefix, which for these names is the last underscore-separated field
  of the base name, read as a decimal number.
\<close>

theorem sort_fragment_names_by_timestamp:
  assumes "canonical_path dir" "dir \<noteq> ''/''" "list_all (is_fragment_name dir) names"
  shows "sort_fragment_names env t0 names = Inr (sort_key timestamp_of names)"
  unfolding sort_fragment_names_def
  using fragment_timestamps_wf[OF assms, of env 0 t0] sort_indexed[of names timestamp_of]
  by simp

lemma example_array_fragments: "get_fragment_dirs env0 example_array ''/w/a'' = example_fragments"
  by (simp add: get_fragment_dirs_def get_dirs_def opendir_def stat_def trailing_slash_def
      resolve_def c_str_def path_of_def example_array_def dirname_def basename_def
      is_fragment_def is_dir_def is_file_def TILEDB_FRAGMENT_FILENAME_def example_fragments_def)

lemma real_dir_wa: "real_dir env0 ''/w/a'' = Inr ''/w/a''"
  by (simp add: real_dir_def starts_with_def adjacent_slashes_dedup_def
      both_slashes_def purge_dots_from_path_def c_str_def)

lemma canonical_wa: "canonical_path ''/w/a''"
  unfolding canonical_path_def
  by (rule disjI2, rule exI[of _ "[''w'', ''a'']"]) (simp add: good_token_def)

lemma example_fragment_name:
  "d \<in> set ''12345'' \<Longrightarrow> is_fragment_name ''/w/a'' (''/w/a/__0a0027000000140737_'' @ [d])"
  unfolding is_fragment_name_def
  by (rule exI[of _ "''0a0027000000140737''"], rule exI[of _ "[d]"])
     (auto simp: wf_uuid_def wf_timestamp_def isdigit_def dec_value_def digit_value_def)

lemma example_fragments_wf: "list_all (is_fragment_name ''/w/a'') example_fragments"
  using example_fragment_name[of "CHR ''1''"] example_fragment_name[of "CHR ''2''"]
    example_fragment_name[of "CHR ''3''"] example_fragment_name[of "CHR ''4''"]
    example_fragment_name[of "CHR ''5''"]
  by (simp add: example_fragments_def)

lemma example_sorted:
  "sort_key timestamp_of example_fragments =
     [''/w/a/__0a0027000000140737_1'', ''/w/a/__0a0027000000140737_2'',
      ''/w/a/__0a0027000000140737_3'', ''/w/a/__0a0027000000140737_4'',
      ''/w/a/__0a0027000000140737_5'']"
  by (simp add: example_fragments_def timestamp_of_def basename_def last_field_def dec_value_def
      digit_value_def)

text \<open>
  The example of the claim: fragments with the timestamps 5, 1, 3, 2, 4 come out in
  the order 1, 2, 3, 4, 5, also through \<^verbatim>\<open>array_get_fragment_names\<close> on a directory
  that holds them.
\<close>

theorem sort_fragment_names_by_timestamp_witness:
  "canonical_path ''/w/a'' \<and> list_all (is_fragment_name ''/w/a'') example_fragments
   \<and> sort_fragment_names env0 0 example_fragments =
       Inr [''/w/a/__0a0027000000140737_1'', ''/w/a/__0a0027000000140737_2'',
            ''/w/a/__0a0027000000140737_3'', ''/w/a/__0a0027000000140737_4'',
            ''/w/a/__0a0027000000140737_5'']
   \<and> array_get_fragment_names env0 example_array 0 ''/w/a'' =
       Inr [''/w/a/__0a0027000000140737_1'', ''/w/a/__0a0027000000140737_2'',
            ''/w/a/__0a0027000000140737_3'', ''/w/a/__0a0027000000140737_4'',
            ''/w/a/__0a0027000000140737_5'']"
  using sort_fragment_names_by_timestamp[OF canonical_wa _ example_fragments_wf, of env0 0]
    canonical_wa example_fragments_wf example_sorted
  by (simp add: array_get_fragment_names_def real_dir_wa example_array_fragments)

text \<open>
  C5. The claim is that a malformed fragment name is reported as an error and never
  enters the sorted list with a default timestamp. \<^verbatim>\<open>sort_fragment_names\<close> returns
  nothing to its caller and does not test the result of \<^verbatim>\<open>sscanf\<close>. A name with no
  underscore after the prefix leaves its entry at \<open>(0, 0)\<close>: the first fragment is
  listed twice and the malformed one is lost. A name whose timestamp field is not a
  number takes the timestamp of the fragment before it and is listed.
\<close>

theorem sort_fragment_names_malformed_timestamp:
  "sort_fragment_names env0 t0 [''/a/__x_5'', ''/a/__y''] = Inr [''/a/__x_5'', ''/a/__x_5'']
   \<and> sort_fragment_names env0 t0 [''/a/__x_5'', ''/a/__y_zz''] = Inr [''/a/__x_5'', ''/a/__y_zz'']"
  by (simp add: sort_fragment_names_def parent_dir_def real_dir_def env0_def starts_with_def
      adjacent_slashes_dedup_def both_slashes_def purge_dots_from_path_def c_str_def
      scan_back.simps sscanf_lld_def isspace_def isdigit_def dec_value_def digit_value_def
      strtoll_clamp_def)

section \<open>The coordinate comparators\<close>

lemma cmp_row_from_lex:
  "0 \<le> i \<Longrightarrow> i \<le> dim_num \<Longrightarrow> int (length a) = dim_num \<Longrightarrow> int (length b) = dim_num \<Longrightarrow>
   cmp_row_from a b dim_num i = Inr (lex_cmp (drop (nat i) a) (drop (nat i) b))"
proof (induction a b dim_num i rule: cmp_row_from.induct)
  case (1 a b n i)
  show ?case
  proof (cases "i < n")
    case False
    with 1 show ?thesis by (subst cmp_row_from.simps) simp
  next
    case True
    with "1.prems" have la: "nat i < length a" and lb: "nat i < length b" by auto
    have da: "drop (nat i) a = a ! nat i # drop (nat (i + 1)) a"
      using la "1.prems"(1) by (simp add: Cons_nth_drop_Suc nat_add_distrib)
    have db: "drop (nat i) b = b ! nat i # drop (nat (i + 1)) b"
      using lb "1.prems"(1) by (simp add: Cons_nth_drop_Suc nat_add_distrib)
    show ?thesis
    proof (cases "a ! nat i < b ! nat i \<or> a ! nat i > b ! nat i")
      case True
      with \<open>i < n\<close> "1.prems" show ?thesis
        by (subst cmp_row_from.simps) (auto simp: da db)
    next
      case False
      then have "cmp_row_from a b n (i + 1) = Inr (lex_cmp (drop (nat (i + 1)) a) (drop (nat (i + 1)) b))"
        using "1.IH" \<open>i < n\<close> "1.prems" by auto
      with False \<open>i < n\<close> "1.prems" show ?thesis
        by (subst cmp_row_from.simps) (auto simp: da db)
    qed
  qed
qed

lemma cmp_col_from_lex:
  "- 1 \<le> i \<Longrightarrow> i < int (length a) \<Longrightarrow> length a = length b \<Longrightarrow>
   cmp_col_from a b i = Inr (lex_cmp (rev (take (nat (i + 1)) a)) (rev (take (nat (i + 1)) b)))"
proof (induction a b i rule: cmp_col_from.induct)
  case (1 a b i)
  show ?case
  proof (cases "i \<ge> 0")
    case False
    with 1 show ?thesis by (subst cmp_col_from.simps) simp
  next
    case True
    with "1.prems" have la: "nat i < length a" and lb: "nat i < length b" by auto
    have n: "nat (i + 1) = Suc (nat i)" using True by simp
    have n': "nat (i - 1 + 1) = nat i" by simp
    have da: "rev (take (nat (i + 1)) a) = a ! nat i # rev (take (nat i) a)"
      using la by (simp add: n take_Suc_conv_app_nth)
    have db: "rev (take (nat (i + 1)) b) = b ! nat i # rev (take (nat i) b)"
      using lb by (simp add: n take_Suc_conv_app_nth)
    show ?thesis
    proof (cases "a ! nat i < b ! nat i \<or> a ! nat i > b ! nat i")
      case True
      with \<open>i \<ge> 0\<close> "1.prems" show ?thesis
        by (subst cmp_col_from.simps) (auto simp: da db)
    next
      case False
      then have "cmp_col_from a b (i - 1) = Inr (lex_cmp (rev (take (nat i) a)) (rev (take (nat i) b)))"
        using "1.IH" \<open>i \<ge> 0\<close> "1.prems" by (auto simp: n')
      with False \<open>i \<ge> 0\<close> "1.prems" show ?thesis
        by (subst cmp_col_from.simps) (auto simp: da db)
    qed
  qed
qed

lemma cmp_row_order_lex:
  "int (length x) = dim_num \<Longrightarrow> int (length y) = dim_num \<Longrightarrow>
   cmp_row_order x y dim_num = Inr (lex_cmp x y)"
  using cmp_row_from_lex[of 0 dim_num x y] by (simp add: cmp_row_order_def)

lemma cmp_col_order_lex:
  assumes "int (length x) = dim_num" "int (length y) = dim_num"
  shows "cmp_col_order x y dim_num = Inr (lex_cmp (rev x) (rev y))"
proof -
  have "length x = length y" using assms by simp
  moreover have "nat (dim_num - 1 + 1) = length x" "nat (dim_num - 1 + 1) = length y"
    using assms by simp_all
  ultimately show ?thesis
    using cmp_col_from_lex[of "dim_num - 1" x y] assms by (simp add: cmp_col_order_def)
qed

lemma lex_cmp_unary:
  assumes "length a = 1" "length b = 1"
  shows "lex_cmp a b = lex_cmp (rev a) (rev b)"
proof -
  from assms obtain x y where "a = [x]" "b = [y]"
    by (cases a; cases b) (auto simp: length_Suc_conv)
  then show ?thesis by simp
qed

lemma lex_cmp_range: "lex_cmp a b \<in> {- 1, 0, 1}"
  by (induction a b rule: lex_cmp.induct) auto

lemma lex_cmp_antisym: "lex_cmp (a :: 'a::linorder list) b = - lex_cmp b a"
  by (induction a b rule: lex_cmp.induct) (auto elim: lex_cmp.elims)

lemma lex_cmp_trans:
  "length a = length b \<Longrightarrow> length b = length c \<Longrightarrow>
   lex_cmp (a :: 'a::linorder list) b \<le> 0 \<Longrightarrow> lex_cmp b c \<le> 0 \<Longrightarrow> lex_cmp a c \<le> 0"
proof (induction a b c rule: list_induct3)
  case Nil
  then show ?case by simp
next
  case (Cons x xs y ys z zs)
  then show ?case by (auto split: if_splits)
qed

lemma less_fp_asym: "(x :: fp) < y \<Longrightarrow> \<not> y < x"
  by (cases x; cases y) (simp_all add: less_fp_def)

lemma lex_cmp_antisym_fp: "lex_cmp (a :: fp list) b = - lex_cmp b a"
proof (induction a b rule: lex_cmp.induct)
  case (1 x xs y ys)
  then show ?case using less_fp_asym[of x y] less_fp_asym[of y x] by auto
qed (auto elim: lex_cmp.elims)

lemma less_fp_rank: "x \<noteq> NaN \<Longrightarrow> y \<noteq> NaN \<Longrightarrow> (x < y) = (fp_rank x < fp_rank y)"
  by (cases x; cases y) (simp_all add: less_fp_def)

lemma lex_cmp_rank:
  "NaN \<notin> set a \<Longrightarrow> NaN \<notin> set b \<Longrightarrow> lex_cmp a b = lex_cmp (map fp_rank a) (map fp_rank b)"
proof (induction a b rule: lex_cmp.induct)
  case (1 x xs y ys)
  then have "x \<noteq> NaN" "y \<noteq> NaN" "NaN \<notin> set xs" "NaN \<notin> set ys" by auto
  with 1 show ?case by (simp add: less_fp_rank)
qed simp_all

lemma lex_cmp_trans_fp:
  assumes "length a = length b" "length b = length c"
    and "NaN \<notin> set a" "NaN \<notin> set b" "NaN \<notin> set c"
    and "lex_cmp a b \<le> 0" "lex_cmp b c \<le> 0"
  shows "lex_cmp a c \<le> 0"
  using lex_cmp_trans[of "map fp_rank a" "map fp_rank b" "map fp_rank c"] assms
  by (simp add: lex_cmp_rank)

lemma cmp_orders_from_lex:
  fixes a b c :: "'a::ord list"
  assumes len: "int (length a) = dim_num" "int (length b) = dim_num" "int (length c) = dim_num"
    and anti: "\<And>u v :: 'a list. lex_cmp u v = - lex_cmp v u"
    and tr_row: "T \<Longrightarrow> lex_cmp a b \<le> 0 \<Longrightarrow> lex_cmp b c \<le> 0 \<Longrightarrow> lex_cmp a c \<le> 0"
    and tr_col: "T \<Longrightarrow> lex_cmp (rev a) (rev b) \<le> 0 \<Longrightarrow> lex_cmp (rev b) (rev c) \<le> 0
                 \<Longrightarrow> lex_cmp (rev a) (rev c) \<le> 0"
  shows "\<exists>rab rba rbc rac cab cba cbc cac.
      cmp_row_order a b dim_num = Inr rab \<and> cmp_row_order b a dim_num = Inr rba
    \<and> cmp_row_order b c dim_num = Inr rbc \<and> cmp_row_order a c dim_num = Inr rac
    \<and> cmp_col_order a b dim_num = Inr cab \<and> cmp_col_order b a dim_num = Inr cba
    \<and> cmp_col_order b c dim_num = Inr cbc \<and> cmp_col_order a c dim_num = Inr cac
    \<and> rab \<in> {- 1, 0, 1} \<and> cab \<in> {- 1, 0, 1}
    \<and> rab = - rba \<and> cab = - cba
    \<and> (T \<longrightarrow> rab \<le> 0 \<and> rbc \<le> 0 \<longrightarrow> rac \<le> 0)
    \<and> (T \<longrightarrow> cab \<le> 0 \<and> cbc \<le> 0 \<longrightarrow> cac \<le> 0)
    \<and> (dim_num = 1 \<longrightarrow> rab = cab)"
proof -
  note row = cmp_row_order_lex and col = cmp_col_order_lex
  have unary: "lex_cmp a b = lex_cmp (rev a) (rev b)" if "dim_num = 1"
    using that len by (intro lex_cmp_unary) simp_all
  show ?thesis
    apply (rule exI[of _ "lex_cmp a b"], rule exI[of _ "lex_cmp b a"])
    apply (rule exI[of _ "lex_cmp b c"], rule exI[of _ "lex_cmp a c"])
    apply (rule exI[of _ "lex_cmp (rev a) (rev b)"], rule exI[of _ "lex_cmp (rev b) (rev a)"])
    apply (rule exI[of _ "lex_cmp (rev b) (rev c)"], rule exI[of _ "lex_cmp (rev a) (rev c)"])
    apply (intro conjI impI)
                  apply (simp add: row len)
                 apply (simp add: row len)
                apply (simp add: row len)
               apply (simp add: row len)
              apply (simp add: col len)
             apply (simp add: col len)
            apply (simp add: col len)
           apply (simp add: col len)
          apply (rule lex_cmp_range)
         apply (rule lex_cmp_range)
        apply (rule anti)
       apply (rule anti)
      apply (erule conjE, erule (2) tr_row)
     apply (erule conjE, erule (2) tr_col)
    apply (erule unary)
    done
qed

text \<open>
  C7. The claim is that for every element type, also \<^verbatim>\<open>float\<close> and \<^verbatim>\<open>double\<close>, both
  comparators are transitive. With a NaN coordinate they are not: the tuple \<open>(2)\<close>
  compares equal to \<open>(NaN)\<close> and \<open>(NaN)\<close> compares equal to \<open>(1)\<close>, but \<open>(2)\<close> comes
  after \<open>(1)\<close>.
\<close>

theorem cmp_row_order_nan_not_transitive:
  "cmp_row_order [Num 2] [NaN] 1 = Inr 0 \<and> cmp_row_order [NaN] [Num 1] 1 = Inr 0
   \<and> cmp_row_order [Num 2] [Num 1] 1 = Inr 1
   \<and> cmp_col_order [Num 2] [NaN] 1 = Inr 0 \<and> cmp_col_order [NaN] [Num 1] 1 = Inr 0
   \<and> cmp_col_order [Num 2] [Num 1] 1 = Inr 1"
  by (simp add: cmp_row_order_def cmp_col_order_def cmp_row_from.simps cmp_col_from.simps less_fp_def)

text \<open>
  A NaN in the first or in the last tuple alone breaks transitivity as well, and a tuple
  with a NaN does not compare equal to every tuple.
\<close>

lemma cmp_row_order_nan_first_or_last:
  "cmp_row_order [NaN, Num 1] [Num 3, Num 1] 2 = Inr 0
   \<and> cmp_row_order [Num 3, Num 1] [Num 5, Num 0] 2 = Inr (- 1)
   \<and> cmp_row_order [NaN, Num 1] [Num 5, Num 0] 2 = Inr 1
   \<and> cmp_row_order [Num 5, Num 0] [NaN, Num 0] 2 = Inr 0
   \<and> cmp_row_order [Num 3, Num 1] [NaN, Num 0] 2 = Inr 1
   \<and> cmp_row_order [NaN, Num 1] [Num 0, Num 2] 2 = Inr (- 1)"
  by (simp add: cmp_row_order_def cmp_row_from.simps less_fp_def)

text \<open>
  C7, amended. For tuples \<open>a\<close>, \<open>b\<close>, \<open>c\<close> of \<open>dim_num\<close> integers (any linearly
  ordered element type) and tuples \<open>x\<close>, \<open>y\<close>, \<open>z\<close> of \<open>dim_num\<close> floating-point
  values: both comparators return a value in \<open>{-1, 0, 1}\<close>, satisfy
  \<open>cmp a b = - cmp b a\<close>, and agree when \<open>dim_num\<close> is 1, also when a coordinate is a
  NaN. They are transitive on the integers, and on floating-point tuples none of whose
  coordinates is a NaN.
\<close>

theorem cmp_orders_laws:
  fixes a b c :: "'a::linorder list" and x y z :: "fp list"
  assumes "int (length a) = dim_num" "int (length b) = dim_num" "int (length c) = dim_num"
    and "int (length x) = dim_num" "int (length y) = dim_num" "int (length z) = dim_num"
  shows "(\<exists>rab rba rbc rac cab cba cbc cac.
      cmp_row_order a b dim_num = Inr rab \<and> cmp_row_order b a dim_num = Inr rba
    \<and> cmp_row_order b c dim_num = Inr rbc \<and> cmp_row_order a c dim_num = Inr rac
    \<and> cmp_col_order a b dim_num = Inr cab \<and> cmp_col_order b a dim_num = Inr cba
    \<and> cmp_col_order b c dim_num = Inr cbc \<and> cmp_col_order a c dim_num = Inr cac
    \<and> rab \<in> {- 1, 0, 1} \<and> cab \<in> {- 1, 0, 1}
    \<and> rab = - rba \<and> cab = - cba
    \<and> (rab \<le> 0 \<and> rbc \<le> 0 \<longrightarrow> rac \<le> 0)
    \<and> (cab \<le> 0 \<and> cbc \<le> 0 \<longrightarrow> cac \<le> 0)
    \<and> (dim_num = 1 \<longrightarrow> rab = cab))
  \<and> (\<exists>rxy ryx ryz rxz cxy cyx cyz cxz.
      cmp_row_order x y dim_num = Inr rxy \<and> cmp_row_order y x dim_num = Inr ryx
    \<and> cmp_row_order y z dim_num = Inr ryz \<and> cmp_row_order x z dim_num = Inr rxz
    \<and> cmp_col_order x y dim_num = Inr cxy \<and> cmp_col_order y x dim_num = Inr cyx
    \<and> cmp_col_order y z dim_num = Inr cyz \<and> cmp_col_order x z dim_num = Inr cxz
    \<and> rxy \<in> {- 1, 0, 1} \<and> cxy \<in> {- 1, 0, 1}
    \<and> rxy = - ryx \<and> cxy = - cyx
    \<and> (NaN \<notin> set x \<union> set y \<union> set z \<longrightarrow> rxy \<le> 0 \<and> ryz \<le> 0 \<longrightarrow> rxz \<le> 0)
    \<and> (NaN \<notin> set x \<union> set y \<union> set z \<longrightarrow> cxy \<le> 0 \<and> cyz \<le> 0 \<longrightarrow> cxz \<le> 0)
    \<and> (dim_num = 1 \<longrightarrow> rxy = cxy))"
proof
  have len: "length a = length b" "length b = length c" using assms by simp_all
  from cmp_orders_from_lex[of a dim_num b c True, OF assms(1-3) lex_cmp_antisym]
    lex_cmp_trans[of a b c] lex_cmp_trans[of "rev a" "rev b" "rev c"] len
  show "\<exists>rab rba rbc rac cab cba cbc cac.
      cmp_row_order a b dim_num = Inr rab \<and> cmp_row_order b a dim_num = Inr rba
    \<and> cmp_row_order b c dim_num = Inr rbc \<and> cmp_row_order a c dim_num = Inr rac
    \<and> cmp_col_order a b dim_num = Inr cab \<and> cmp_col_order b a dim_num = Inr cba
    \<and> cmp_col_order b c dim_num = Inr cbc \<and> cmp_col_order a c dim_num = Inr cac
    \<and> rab \<in> {- 1, 0, 1} \<and> cab \<in> {- 1, 0, 1}
    \<and> rab = - rba \<and> cab = - cba
    \<and> (rab \<le> 0 \<and> rbc \<le> 0 \<longrightarrow> rac \<le> 0)
    \<and> (cab \<le> 0 \<and> cbc \<le> 0 \<longrightarrow> cac \<le> 0)
    \<and> (dim_num = 1 \<longrightarrow> rab = cab)"
    by simp
next
  have len: "length x = length y" "length y = length z" using assms by simp_all
  define T where "T = (NaN \<notin> set x \<union> set y \<union> set z)"
  have tr_row: "lex_cmp x z \<le> 0" if "T" "lex_cmp x y \<le> 0" "lex_cmp y z \<le> 0"
    using lex_cmp_trans_fp[of x y z] len that by (simp add: T_def)
  have tr_col: "lex_cmp (rev x) (rev z) \<le> 0"
    if "T" "lex_cmp (rev x) (rev y) \<le> 0" "lex_cmp (rev y) (rev z) \<le> 0"
    using lex_cmp_trans_fp[of "rev x" "rev y" "rev z"] len that by (simp add: T_def)
  from cmp_orders_from_lex[of x dim_num y z T, OF assms(4-6) lex_cmp_antisym_fp tr_row tr_col]
  show "\<exists>rxy ryx ryz rxz cxy cyx cyz cxz.
      cmp_row_order x y dim_num = Inr rxy \<and> cmp_row_order y x dim_num = Inr ryx
    \<and> cmp_row_order y z dim_num = Inr ryz \<and> cmp_row_order x z dim_num = Inr rxz
    \<and> cmp_col_order x y dim_num = Inr cxy \<and> cmp_col_order y x dim_num = Inr cyx
    \<and> cmp_col_order y z dim_num = Inr cyz \<and> cmp_col_order x z dim_num = Inr cxz
    \<and> rxy \<in> {- 1, 0, 1} \<and> cxy \<in> {- 1, 0, 1}
    \<and> rxy = - ryx \<and> cxy = - cyx
    \<and> (NaN \<notin> set x \<union> set y \<union> set z \<longrightarrow> rxy \<le> 0 \<and> ryz \<le> 0 \<longrightarrow> rxz \<le> 0)
    \<and> (NaN \<notin> set x \<union> set y \<union> set z \<longrightarrow> cxy \<le> 0 \<and> cyz \<le> 0 \<longrightarrow> cxz \<le> 0)
    \<and> (dim_num = 1 \<longrightarrow> rxy = cxy)"
    unfolding T_def .
qed

lemma cmp_examples_int:
  "cmp_row_order [1, 5 :: int] [1, 7] 2 = Inr (- 1)" "cmp_row_order [1, 7 :: int] [1, 5] 2 = Inr 1"
  "cmp_row_order [1, 7 :: int] [2, 0] 2 = Inr (- 1)"
  "cmp_col_order [1, 5 :: int] [1, 7] 2 = Inr (- 1)" "cmp_col_order [1, 7 :: int] [1, 5] 2 = Inr 1"
  "cmp_col_order [1, 7 :: int] [2, 0] 2 = Inr 1"
  by (simp_all add: cmp_row_order_def cmp_col_order_def cmp_row_from.simps cmp_col_from.simps)

lemma cmp_examples_fp:
  "cmp_row_order [MinusInfinity, Num 5] [Num 1, Num 7] 2 = Inr (- 1)"
  "cmp_row_order [Num 1, Num 7] [MinusInfinity, Num 5] 2 = Inr 1"
  "cmp_row_order [Num 1, Num 7] [Num 1, PlusInfinity] 2 = Inr (- 1)"
  "cmp_col_order [MinusInfinity, Num 5] [Num 1, Num 7] 2 = Inr (- 1)"
  "cmp_col_order [Num 1, Num 7] [MinusInfinity, Num 5] 2 = Inr 1"
  "cmp_col_order [Num 1, Num 7] [Num 1, PlusInfinity] 2 = Inr (- 1)"
  by (simp_all add: cmp_row_order_def cmp_col_order_def cmp_row_from.simps cmp_col_from.simps
      less_fp_def)

theorem cmp_orders_laws_witness:
  "cmp_row_order [1, 5 :: int] [1, 7] 2 = Inr (- 1) \<and> cmp_row_order [1, 7 :: int] [2, 0] 2 = Inr (- 1)
   \<and> (\<exists>r. cmp_row_order [1, 5 :: int] [2, 0] 2 = Inr r \<and> r \<le> 0)
   \<and> NaN \<notin> set [MinusInfinity, Num 5] \<union> set [Num 1, Num 7] \<union> set [Num 1, PlusInfinity]
   \<and> cmp_row_order [MinusInfinity, Num 5] [Num 1, Num 7] 2 = Inr (- 1)
   \<and> cmp_row_order [Num 1, Num 7] [Num 1, PlusInfinity] 2 = Inr (- 1)
   \<and> (\<exists>r. cmp_row_order [MinusInfinity, Num 5] [Num 1, PlusInfinity] 2 = Inr r \<and> r \<le> 0)
   \<and> cmp_col_order [MinusInfinity, Num 5] [Num 1, Num 7] 2 = Inr (- 1)
   \<and> cmp_col_order [Num 1, Num 7] [Num 1, PlusInfinity] 2 = Inr (- 1)
   \<and> (\<exists>r. cmp_col_order [MinusInfinity, Num 5] [Num 1, PlusInfinity] 2 = Inr r \<and> r \<le> 0)
   \<and> cmp_row_order [NaN] [Num 1] 1 = cmp_col_order [NaN] [Num 1] 1
   \<and> cmp_row_order [3 :: int] [4] 1 = cmp_col_order [3 :: int] [4] 1"
proof -
  have li: "int (length [1, 5 :: int]) = 2" "int (length [1, 7 :: int]) = 2"
    "int (length [2, 0 :: int]) = 2" by simp_all
  have lf: "int (length [MinusInfinity, Num 5]) = 2" "int (length [Num 1, Num 7]) = 2"
    "int (length [Num 1, PlusInfinity]) = 2" by simp_all
  have nn: "NaN \<notin> set [MinusInfinity, Num 5] \<union> set [Num 1, Num 7] \<union> set [Num 1, PlusInfinity]"
    by simp
  note laws = cmp_orders_laws[OF li lf]
  from laws have 1: "\<exists>r. cmp_row_order [1, 5 :: int] [2, 0] 2 = Inr r \<and> r \<le> 0"
    by (elim conjE exE) (simp add: cmp_examples_int)
  from laws nn
  have 2: "\<exists>r. cmp_row_order [MinusInfinity, Num 5] [Num 1, PlusInfinity] 2 = Inr r \<and> r \<le> 0"
    by (elim conjE exE) (simp add: cmp_examples_fp)
  from laws nn
  have 3: "\<exists>r. cmp_col_order [MinusInfinity, Num 5] [Num 1, PlusInfinity] 2 = Inr r \<and> r \<le> 0"
    by (elim conjE exE) (simp add: cmp_examples_fp)
  have l1: "int (length [3 :: int]) = 1" "int (length [4 :: int]) = 1" "int (length [NaN]) = 1"
    "int (length [Num 1]) = 1" by simp_all
  from cmp_orders_laws[OF l1(1) l1(2) l1(2) l1(3) l1(4) l1(4)]
  have 4: "cmp_row_order [NaN] [Num 1] 1 = cmp_col_order [NaN] [Num 1] 1
      \<and> cmp_row_order [3 :: int] [4] 1 = cmp_col_order [3 :: int] [4] 1"
    by (elim conjE exE) simp
  from 1 2 3 4 nn cmp_examples_int cmp_examples_fp show ?thesis by simp
qed

section \<open>Containment checks of the create operations\<close>

lemma stat_empty: "stat env fs [] = None"
  by (simp add: stat_def resolve_def c_str_def)

lemma not_entity_empty:
  "\<not> is_workspace env fs []" "\<not> is_group env fs []" "\<not> is_array env fs []" "\<not> is_metadata env fs []"
  by (simp_all add: is_workspace_def is_group_def is_array_def is_metadata_def is_dir_def stat_empty)

lemma dirname_snoc:
  assumes "CHR ''/'' \<notin> set base"
  shows "dirname (dir @ CHR ''/'' # base) = (if dir = [] then ''/'' else dir)"
proof -
  have "dropWhile (\<lambda>c. c \<noteq> CHR ''/'') (rev base @ CHR ''/'' # rev dir)
          = dropWhile (\<lambda>c. c \<noteq> CHR ''/'') (CHR ''/'' # rev dir)"
    using assms by (intro dropWhile_append2) auto
  then show ?thesis by (simp add: dirname_def)
qed

lemma canonical_path_split:
  assumes "canonical_path rp" "rp \<noteq> ''/''"
  shows "\<exists>dir base. rp = dir @ CHR ''/'' # base \<and> good_token base
           \<and> (dir = [] \<or> (canonical_path dir \<and> dir \<noteq> ''/''))"
proof -
  from assms obtain ts where ts: "ts \<noteq> []" "list_all good_token ts"
    and p: "rp = concat (map ((#) CHR ''/'') ts)"
    by (auto simp: canonical_path_def)
  from ts(1) obtain ts' base where s: "ts = ts' @ [base]" by (cases ts rule: rev_cases) auto
  define dir where "dir = concat (map ((#) CHR ''/'') ts')"
  have rp: "rp = dir @ CHR ''/'' # base" by (simp add: p s dir_def)
  have gb: "good_token base" using ts(2) s by simp
  have "dir = [] \<or> (canonical_path dir \<and> dir \<noteq> ''/'')"
  proof (cases ts')
    case Nil
    then show ?thesis by (simp add: dir_def)
  next
    case (Cons t rest)
    have "list_all good_token ts'" using ts(2) s by simp
    then have c: "canonical_path dir" unfolding canonical_path_def dir_def using Cons by blast
    have "t \<noteq> []" using ts(2) s Cons by (simp add: good_token_def)
    then have "dir \<noteq> ''/''" by (cases t) (simp_all add: dir_def Cons)
    with c show ?thesis by simp
  qed
  with rp gb show ?thesis by blast
qed

lemma parent_dir_of_root: "real_dir env p = Inr ''/'' \<Longrightarrow> parent_dir env p = Inr ''/''"
  by (simp add: parent_dir_def scan_back.simps)

lemma dirname_root: "dirname ''/'' = ''/''"
  by (simp add: dirname_def)

lemma parent_dir_canonical:
  assumes "canonical_path rp" "real_dir env p = Inr rp"
  shows "parent_dir env p = Inr (if rp \<noteq> ''/'' \<and> dirname rp = ''/'' then [] else dirname rp)"
proof (cases "rp = ''/''")
  case True
  with assms(2) show ?thesis by (simp add: parent_dir_of_root dirname_root)
next
  case False
  from canonical_path_split[OF assms(1) False] obtain dir base
    where rp: "rp = dir @ CHR ''/'' # base" and gb: "good_token base"
      and d: "dir = [] \<or> (canonical_path dir \<and> dir \<noteq> ''/'')" by blast
  from gb have ne: "base \<noteq> []" and ns: "CHR ''/'' \<notin> set base" by (simp_all add: good_token_def)
  have pd: "parent_dir env p = Inr dir"
    using assms(2) unfolding rp by (rule parent_dir_of_real) (rule ne, rule ns)
  have dn: "dirname rp = (if dir = [] then ''/'' else dir)"
    unfolding rp by (rule dirname_snoc[OF ns])
  from d show ?thesis
  proof
    assume "dir = []"
    with pd dn False show ?thesis by simp
  next
    assume "canonical_path dir \<and> dir \<noteq> ''/''"
    then have "dir \<noteq> []" "dir \<noteq> ''/''" using canonical_path_hd by auto
    with pd dn False show ?thesis by simp
  qed
qed

lemma entity_is_dir:
  "is_workspace env fs d \<Longrightarrow> is_dir env fs d" "is_group env fs d \<Longrightarrow> is_dir env fs d"
  "is_array env fs d \<Longrightarrow> is_dir env fs d"
  by (simp_all add: is_workspace_def is_group_def is_array_def split: if_splits)

lemma create_dir_existing:
  "real_dir env p = Inr rp \<Longrightarrow> is_dir env fs rp \<Longrightarrow>
   \<exists>msg. create_dir env fs p = Inr (StorageManagerError msg, fs)"
  by (simp add: create_dir_def)

text \<open>
  The checks of the create operations, stated on the directory that contains the
  canonical path \<open>rp\<close> of \<open>p\<close>, that is \<open>dirname rp\<close>. \<^verbatim>\<open>workspace_create\<close> fails
  when that directory is not the root and is a workspace, group, array or metadata;
  \<^verbatim>\<open>group_create\<close> fails when it is neither a workspace nor a group;
  \<^verbatim>\<open>metadata_create\<close> fails when it is neither a workspace, a group nor an array, and
  whenever it is the root. In each case the file system is returned unchanged.
\<close>

lemma create_checks_on_true_parent:
  assumes "wf_environment env" "real_dir env p = Inr rp" "rp \<noteq> []"
  shows
  "(dirname rp \<noteq> ''/'' \<longrightarrow>
      is_workspace env fs (dirname rp) \<or> is_group env fs (dirname rp)
      \<or> is_array env fs (dirname rp) \<or> is_metadata env fs (dirname rp) \<longrightarrow>
      (\<exists>msg. workspace_create env fs p = Inr (StorageManagerError msg, fs)))
   \<and> (\<not> is_workspace env fs (dirname rp) \<and> \<not> is_group env fs (dirname rp) \<longrightarrow>
      (\<exists>msg. group_create env fs p = Inr (StorageManagerError msg, fs)))
   \<and> (ok st_init \<and> array_name schema = p \<and> \<not> is_workspace env fs (dirname rp)
       \<and> \<not> is_group env fs (dirname rp) \<and> \<not> is_array env fs (dirname rp) \<longrightarrow>
      (\<exists>msg. metadata_create env fs st_init schema = Inr (StorageManagerError msg, fs)))
   \<and> (ok st_init \<and> array_name schema = p \<and> dirname rp = ''/'' \<longrightarrow>
      (\<exists>msg. metadata_create env fs st_init schema = Inr (StorageManagerError msg, fs)))"
proof -
  from real_dir_output[OF assms(1), of p] assms(2,3) have c: "canonical_path rp" by auto
  note pd = parent_dir_canonical[OF c assms(2)]
  have top: "parent_dir env p = Inr []" if "rp \<noteq> ''/''" "dirname rp = ''/''"
    using pd that by simp
  have other: "parent_dir env p = Inr (dirname rp)" if "rp = ''/'' \<or> dirname rp \<noteq> ''/''"
    using pd that by auto
  have w: "\<exists>msg. workspace_create env fs p = Inr (StorageManagerError msg, fs)"
    if "dirname rp \<noteq> ''/''"
      "is_workspace env fs (dirname rp) \<or> is_group env fs (dirname rp)
       \<or> is_array env fs (dirname rp) \<or> is_metadata env fs (dirname rp)"
    using other that by (simp add: workspace_create_def)
  have g: "\<exists>msg. group_create env fs p = Inr (StorageManagerError msg, fs)"
    if "\<not> is_workspace env fs (dirname rp) \<and> \<not> is_group env fs (dirname rp)"
  proof (cases "rp \<noteq> ''/'' \<and> dirname rp = ''/''")
    case True
    then show ?thesis using top by (simp add: group_create_def not_entity_empty)
  next
    case False
    then show ?thesis using other that by (auto simp: group_create_def)
  qed
  have m: "\<exists>msg. metadata_create env fs st_init schema = Inr (StorageManagerError msg, fs)"
    if "ok st_init" "array_name schema = p" "\<not> is_workspace env fs (dirname rp)"
      "\<not> is_group env fs (dirname rp)" "\<not> is_array env fs (dirname rp)"
  proof (cases "rp \<noteq> ''/'' \<and> dirname rp = ''/''")
    case True
    then show ?thesis using top that(1,2) by (simp add: metadata_create_def not_entity_empty)
  next
    case False
    then show ?thesis using other that by (auto simp: metadata_create_def)
  qed
  have r: "\<exists>msg. metadata_create env fs st_init schema = Inr (StorageManagerError msg, fs)"
    if "ok st_init" "array_name schema = p" "dirname rp = ''/''"
  proof (cases "rp = ''/''")
    case False
    then show ?thesis using top that by (simp add: metadata_create_def not_entity_empty)
  next
    case True
    then have pr: "parent_dir env p = Inr ''/''" using other by (simp add: dirname_root)
    show ?thesis
    proof (cases "\<not> is_workspace env fs ''/'' \<and> \<not> is_group env fs ''/'' \<and> \<not> is_array env fs ''/''")
      case True
      then show ?thesis using pr that(1,2) by (simp add: metadata_create_def)
    next
      case False
      then have "is_dir env fs rp" using entity_is_dir[of env fs "''/''"] \<open>rp = ''/''\<close> by blast
      from create_dir_existing[OF assms(2) this] obtain msg
        where "create_dir env fs p = Inr (StorageManagerError msg, fs)" by blast
      then show ?thesis using pr that(1,2) False
        by (simp add: metadata_create_def metadata_create_schema_def)
    qed
  qed
  from w g m r show ?thesis by blast
qed

lemma real_dir_examples:
  "real_dir env0 ''/w/w2'' = Inr ''/w/w2''" "real_dir env0 ''/w/g/a/g2'' = Inr ''/w/g/a/g2''"
  "real_dir env0 ''m'' = Inr ''/tmp/m''" "real_dir env0 ''/m'' = Inr ''/m''"
  by (simp_all add: real_dir_def env0_def starts_with_def adjacent_slashes_dedup_def
      both_slashes_def purge_dots_from_path_def c_str_def)

lemma dirname_examples:
  "dirname ''/w/w2'' = ''/w''" "dirname ''/w/g/a/g2'' = ''/w/g/a''" "dirname ''/tmp/m'' = ''/tmp''"
  "dirname ''/m'' = ''/''"
  by (simp_all add: dirname_def)

lemma fs0_kinds:
  "is_workspace env0 fs0 ''/w''" "\<not> is_workspace env0 fs0 ''/w/g/a''" "\<not> is_group env0 fs0 ''/w/g/a''"
  "is_array env0 fs0 ''/w/g/a''"
  "\<not> is_workspace env0 fs0 ''/tmp''" "\<not> is_group env0 fs0 ''/tmp''" "\<not> is_array env0 fs0 ''/tmp''"
  by (simp_all add: is_workspace_def is_group_def is_array_def is_dir_def is_file_def stat_def
      trailing_slash_def resolve_def c_str_def path_of_def fs0_def TILEDB_WORKSPACE_FILENAME_def
      TILEDB_GROUP_FILENAME_def TILEDB_ARRAY_SCHEMA_FILENAME_def)

lemma create_checks_examples:
  "wf_environment env0
   \<and> real_dir env0 ''/w/w2'' = Inr ''/w/w2'' \<and> dirname ''/w/w2'' = ''/w''
   \<and> is_workspace env0 fs0 ''/w''
   \<and> (\<exists>msg. workspace_create env0 fs0 ''/w/w2'' = Inr (StorageManagerError msg, fs0))
   \<and> real_dir env0 ''/w/g/a/g2'' = Inr ''/w/g/a/g2'' \<and> dirname ''/w/g/a/g2'' = ''/w/g/a''
   \<and> is_array env0 fs0 ''/w/g/a''
   \<and> \<not> is_workspace env0 fs0 ''/w/g/a'' \<and> \<not> is_group env0 fs0 ''/w/g/a''
   \<and> (\<exists>msg. group_create env0 fs0 ''/w/g/a/g2'' = Inr (StorageManagerError msg, fs0))
   \<and> real_dir env0 ''m'' = Inr ''/tmp/m'' \<and> dirname ''/tmp/m'' = ''/tmp''
   \<and> \<not> is_workspace env0 fs0 ''/tmp'' \<and> \<not> is_group env0 fs0 ''/tmp'' \<and> \<not> is_array env0 fs0 ''/tmp''
   \<and> (\<exists>msg. metadata_create env0 fs0 Ok \<lparr>array_name = ''m'', serialize = (Ok, ''b'')\<rparr>
              = Inr (StorageManagerError msg, fs0))
   \<and> real_dir env0 ''/m'' = Inr ''/m'' \<and> dirname ''/m'' = ''/''
   \<and> (\<exists>msg. metadata_create env0 fs0 Ok \<lparr>array_name = ''/m'', serialize = (Ok, ''b'')\<rparr>
              = Inr (StorageManagerError msg, fs0))"
  using create_checks_on_true_parent[OF wf_env0 real_dir_examples(1), of fs0]
    create_checks_on_true_parent[OF wf_env0 real_dir_examples(2), of fs0]
    create_checks_on_true_parent[OF wf_env0 real_dir_examples(3), of fs0 Ok
      "\<lparr>array_name = ''m'', serialize = (Ok, ''b'')\<rparr>"]
    create_checks_on_true_parent[OF wf_env0 real_dir_examples(4), of fs0 Ok
      "\<lparr>array_name = ''/m'', serialize = (Ok, ''b'')\<rparr>"]
    wf_env0 real_dir_examples dirname_examples fs0_kinds
  by simp

text \<open>
  C8. The claim is that \<^verbatim>\<open>workspace_create\<close> fails whenever the parent of the path
  is a workspace, group, array or metadata, as its comment and its error message say.
  For a path directly under the root the \<^verbatim>\<open>while\<close> loop of \<^verbatim>\<open>utils::parent_dir\<close>
  stops at index 0 and the function returns the empty string, not \<^verbatim>\<open>/\<close>. No
  predicate accepts the empty string: in a root directory that carries a workspace
  marker, the workspace \<^verbatim>\<open>/w2\<close> is created all the same.
\<close>

theorem workspace_create_in_root_workspace:
  "is_workspace env0 fs_root_workspace ''/''
   \<and> real_dir env0 ''/w2'' = Inr ''/w2'' \<and> dirname ''/w2'' = ''/''
   \<and> parent_dir env0 ''/w2'' = Inr []
   \<and> workspace_create env0 fs_root_workspace ''/w2'' =
       Inr (Ok, fs_root_workspace @
                [(''/w2'', Directory), (''/w2/__tiledb_workspace.tdb'', File [])])"
  by (simp add: workspace_create_def parent_dir_def real_dir_def starts_with_def
      adjacent_slashes_dedup_def both_slashes_def purge_dots_from_path_def c_str_def
      scan_back.simps is_workspace_def is_group_def is_array_def is_metadata_def is_dir_def
      is_file_def stat_def trailing_slash_def resolve_def path_of_def fs_root_workspace_def dirname_def
      create_dir_def mkdir_def create_workspace_file_def open_create_def
      TILEDB_WORKSPACE_FILENAME_def TILEDB_GROUP_FILENAME_def TILEDB_ARRAY_SCHEMA_FILENAME_def
      TILEDB_METADATA_SCHEMA_FILENAME_def)

section \<open>Listing a directory that cannot be opened\<close>

text \<open>
  C10. When the directory cannot be opened, \<^verbatim>\<open>ls\<close> and \<^verbatim>\<open>ls_c\<close> return
  \<^verbatim>\<open>Ok\<close> with \<^verbatim>\<open>dir_num\<close> set to 0, and \<^verbatim>\<open>ls\<close> leaves the buffers as they were.
\<close>

theorem ls_unopenable_parent:
  assumes "real_dir env parent = Inr parent_dir_real" "opendir env fs parent_dir_real = None"
  shows "ls env fs closedir_fails parent dirs dir_types dir_num = Inr (Ok, dirs, dir_types, 0)
         \<and> ls_c env fs closedir_fails parent = Inr (Ok, 0)"
  using assms by (simp add: ls_def ls_c_def)

lemma real_dir_ex: "real_dir env0 ''/nonexistent'' = Inr ''/nonexistent''"
  by (simp add: real_dir_def starts_with_def adjacent_slashes_dedup_def
      both_slashes_def purge_dots_from_path_def c_str_def)

lemma opendir_ex: "opendir env0 fs0 ''/nonexistent'' = None"
  by (simp add: opendir_def resolve_def c_str_def path_of_def fs0_def)

theorem ls_unopenable_parent_witness:
  "real_dir env0 ''/nonexistent'' = Inr ''/nonexistent'' \<and> opendir env0 fs0 ''/nonexistent'' = None
   \<and> ls env0 fs0 False ''/nonexistent'' [''buf''] [TILEDB_ARRAY] 1 = Inr (Ok, [''buf''], [TILEDB_ARRAY], 0)
   \<and> ls_c env0 fs0 False ''/nonexistent'' = Inr (Ok, 0)"
  using ls_unopenable_parent[OF real_dir_ex opendir_ex, of False "[''buf'']" "[TILEDB_ARRAY]" 1]
    real_dir_ex opendir_ex
  by simp

section \<open>Reference counting in the registry\<close>

lemma open_absent:
  "locks_ok sr \<Longrightarrow> reg k = None \<Longrightarrow>
   array_get_open_array_entry sr reg k = (Ok, reg(k \<mapsto> fresh_entry 1))"
  by (simp add: array_get_open_array_entry_def locks_ok_def fresh_entry_def)

lemma open_present:
  "locks_ok sr \<Longrightarrow> reg k = Some oa \<Longrightarrow>
   array_get_open_array_entry sr reg k = (Ok, reg(k \<mapsto> oa\<lparr>oa_cnt := oa_cnt oa + 1\<rparr>))"
  by (simp add: array_get_open_array_entry_def locks_ok_def)

lemma close_present:
  "locks_ok sr \<Longrightarrow> real_dir env p = Inr k \<Longrightarrow> reg k = Some oa \<Longrightarrow>
   \<exists>st. array_close sr env reg p =
     Inr (st, if oa_cnt oa - 1 = 0 then reg(k := None) else reg(k \<mapsto> oa\<lparr>oa_cnt := oa_cnt oa - 1\<rparr>))"
  by (simp add: array_close_def locks_ok_def Let_def)

lemma open_times_present:
  "locks_ok sr \<Longrightarrow> reg k = Some oa \<Longrightarrow>
   open_times sr reg k n = reg(k \<mapsto> oa\<lparr>oa_cnt := oa_cnt oa + int n\<rparr>)"
proof (induction n arbitrary: reg oa)
  case 0
  have "reg(k \<mapsto> oa) = reg" using "0.prems"(2) by (rule fun_upd_idem)
  then show ?case by simp
next
  case (Suc n)
  define oa1 where "oa1 = oa\<lparr>oa_cnt := oa_cnt oa + 1\<rparr>"
  define reg1 where "reg1 = reg(k \<mapsto> oa1)"
  have r1: "reg1 k = Some oa1" by (simp add: reg1_def)
  have "array_get_open_array_entry sr reg k = (Ok, reg1)"
    unfolding reg1_def oa1_def using Suc.prems by (rule open_present)
  then have "open_times sr reg k (Suc n) = open_times sr reg1 k n"
    by (simp only: open_times.simps snd_conv)
  also have "\<dots> = reg1(k \<mapsto> oa1\<lparr>oa_cnt := oa_cnt oa1 + int n\<rparr>)"
    using Suc.prems(1) r1 by (rule Suc.IH)
  also have "\<dots> = reg(k \<mapsto> oa\<lparr>oa_cnt := oa_cnt oa + int (Suc n)\<rparr>)"
    by (simp add: reg1_def oa1_def add.assoc)
  finally show ?case .
qed

lemma open_times_absent:
  assumes "locks_ok sr" "reg k = None"
  shows "open_times sr reg k (Suc n) = reg(k \<mapsto> fresh_entry (1 + int n))"
proof -
  define reg1 where "reg1 = reg(k \<mapsto> fresh_entry 1)"
  have r1: "reg1 k = Some (fresh_entry 1)" by (simp add: reg1_def)
  have "array_get_open_array_entry sr reg k = (Ok, reg1)"
    unfolding reg1_def using assms by (rule open_absent)
  then have "open_times sr reg k (Suc n) = open_times sr reg1 k n"
    by (simp only: open_times.simps snd_conv)
  also have "\<dots> = reg1(k \<mapsto> (fresh_entry 1)\<lparr>oa_cnt := oa_cnt (fresh_entry 1) + int n\<rparr>)"
    using assms(1) r1 by (rule open_times_present)
  also have "\<dots> = reg(k \<mapsto> fresh_entry (1 + int n))"
    by (simp add: reg1_def fresh_entry_def)
  finally show ?thesis .
qed

lemma close_times_present:
  "locks_ok sr \<Longrightarrow> real_dir env p = Inr k \<Longrightarrow> reg k = Some oa \<Longrightarrow> int m < oa_cnt oa \<Longrightarrow>
   close_times sr env reg p m = Inr (reg(k \<mapsto> oa\<lparr>oa_cnt := oa_cnt oa - int m\<rparr>))"
proof (induction m arbitrary: reg oa)
  case 0
  have "reg(k \<mapsto> oa) = reg" using "0.prems"(3) by (rule fun_upd_idem)
  then show ?case by simp
next
  case (Suc m)
  define oa1 where "oa1 = oa\<lparr>oa_cnt := oa_cnt oa - 1\<rparr>"
  define reg1 where "reg1 = reg(k \<mapsto> oa1)"
  have r1: "reg1 k = Some oa1" by (simp add: reg1_def)
  from Suc.prems have ne: "oa_cnt oa - 1 \<noteq> 0" and lt: "int m < oa_cnt oa1"
    by (simp_all add: oa1_def)
  obtain st' where "array_close sr env reg p = Inr (st', reg1)"
    unfolding reg1_def oa1_def
    using close_present[OF Suc.prems(1,2), of reg oa] Suc.prems(3) ne by auto
  then have "close_times sr env reg p (Suc m) = close_times sr env reg1 p m"
    by (simp only: close_times.simps sum.case prod.case)
  also have "\<dots> = Inr (reg1(k \<mapsto> oa1\<lparr>oa_cnt := oa_cnt oa1 - int m\<rparr>))"
    using Suc.prems(1,2) r1 lt by (rule Suc.IH)
  also have "reg1(k \<mapsto> oa1\<lparr>oa_cnt := oa_cnt oa1 - int m\<rparr>)
             = reg(k \<mapsto> oa\<lparr>oa_cnt := oa_cnt oa - int (Suc m)\<rparr>)"
    by (simp add: reg1_def oa1_def algebra_simps)
  finally show ?case .
qed

lemma close_times_last:
  "locks_ok sr \<Longrightarrow> real_dir env p = Inr k \<Longrightarrow> reg k = Some oa \<Longrightarrow> oa_cnt oa = int (Suc m) \<Longrightarrow>
   close_times sr env reg p (Suc m) = Inr (reg(k := None))"
proof (induction m arbitrary: reg oa)
  case 0
  define reg1 where "reg1 = reg(k := None)"
  obtain st' where "array_close sr env reg p = Inr (st', reg1)"
    unfolding reg1_def
    using close_present[OF "0.prems"(1,2), of reg oa] "0.prems"(3,4) by auto
  then have "close_times sr env reg p (Suc 0) = Inr reg1"
    by (simp only: close_times.simps sum.case prod.case)
  then show ?case unfolding reg1_def .
next
  case (Suc m)
  define oa1 where "oa1 = oa\<lparr>oa_cnt := oa_cnt oa - 1\<rparr>"
  define reg1 where "reg1 = reg(k \<mapsto> oa1)"
  have r1: "reg1 k = Some oa1" by (simp add: reg1_def)
  from Suc.prems have ne: "oa_cnt oa - 1 \<noteq> 0" and c: "oa_cnt oa1 = int (Suc m)"
    by (simp_all add: oa1_def)
  obtain st' where "array_close sr env reg p = Inr (st', reg1)"
    unfolding reg1_def oa1_def
    using close_present[OF Suc.prems(1,2), of reg oa] Suc.prems(3) ne by auto
  then have "close_times sr env reg p (Suc (Suc m)) = close_times sr env reg1 p (Suc m)"
    by (simp only: close_times.simps sum.case prod.case)
  also have "\<dots> = Inr (reg1(k := None))"
    using Suc.prems(1,2) r1 c by (rule Suc.IH)
  also have "reg1(k := None) = reg(k := None)" by (simp add: reg1_def)
  finally show ?case .
qed

text \<open>
  C9. With mutex calls that succeed and a registry that has no entry for the array: opening it \<open>N\<close> times and closing it \<open>N\<close> times (\<open>N = n + 1\<close>) gives the
  registry back, without an entry for the array; after \<open>N\<close> opens and \<open>N - 1\<close> closes
  the entry is there with count 1. The first open creates the entry with count 1, each
  further open adds exactly 1 to the count, and each close subtracts exactly 1 and
  erases the entry exactly when the count reaches 0.
\<close>

theorem open_close_refcount:
  assumes "locks_ok sr" "real_dir env p = Inr k" "reg k = None"
  shows "close_times sr env (open_times sr reg k (Suc n)) p (Suc n) = Inr reg
     \<and> (\<exists>oa. close_times sr env (open_times sr reg k (Suc n)) p n = Inr (reg(k \<mapsto> oa)) \<and> oa_cnt oa = 1)
     \<and> array_get_open_array_entry sr reg k = (Ok, reg(k \<mapsto> fresh_entry 1))
     \<and> (\<forall>r oa. r k = Some oa \<longrightarrow>
          array_get_open_array_entry sr r k = (Ok, r(k \<mapsto> oa\<lparr>oa_cnt := oa_cnt oa + 1\<rparr>))
          \<and> (\<exists>st. array_close sr env r p =
              Inr (st, if oa_cnt oa - 1 = 0 then r(k := None)
                       else r(k \<mapsto> oa\<lparr>oa_cnt := oa_cnt oa - 1\<rparr>))))"
proof (intro conjI allI impI)
  define opened where "opened = open_times sr reg k (Suc n)"
  define oaN where "oaN = fresh_entry (1 + int n)"
  have op: "opened = reg(k \<mapsto> oaN)"
    unfolding opened_def oaN_def using assms(1,3) by (rule open_times_absent)
  have ok: "opened k = Some oaN" by (simp add: op)
  have cN: "oa_cnt oaN = int (Suc n)" by (simp add: oaN_def fresh_entry_def)
  have "close_times sr env opened p (Suc n) = Inr (opened(k := None))"
    using assms(1,2) ok cN by (rule close_times_last)
  also have "opened(k := None) = reg"
    using assms(3) by (simp add: op fun_upd_idem)
  finally show "close_times sr env (open_times sr reg k (Suc n)) p (Suc n) = Inr reg"
    unfolding opened_def .
  have lt: "int n < oa_cnt oaN" using cN by simp
  have "close_times sr env opened p n = Inr (opened(k \<mapsto> oaN\<lparr>oa_cnt := oa_cnt oaN - int n\<rparr>))"
    using assms(1,2) ok lt by (rule close_times_present)
  also have "opened(k \<mapsto> oaN\<lparr>oa_cnt := oa_cnt oaN - int n\<rparr>) = reg(k \<mapsto> fresh_entry 1)"
    by (simp add: op oaN_def fresh_entry_def)
  finally have "close_times sr env (open_times sr reg k (Suc n)) p n = Inr (reg(k \<mapsto> fresh_entry 1))"
    unfolding opened_def .
  moreover have "oa_cnt (fresh_entry 1) = 1" by (simp add: fresh_entry_def)
  ultimately show "\<exists>oa. close_times sr env (open_times sr reg k (Suc n)) p n = Inr (reg(k \<mapsto> oa))
      \<and> oa_cnt oa = 1"
    by blast
  show "array_get_open_array_entry sr reg k = (Ok, reg(k \<mapsto> fresh_entry 1))"
    using assms(1,3) by (rule open_absent)
next
  fix r :: open_arrays and oa :: OpenArray
  assume "r k = Some oa"
  with assms(1) show "array_get_open_array_entry sr r k = (Ok, r(k \<mapsto> oa\<lparr>oa_cnt := oa_cnt oa + 1\<rparr>))"
    by (rule open_present)
next
  fix r :: open_arrays and oa :: OpenArray
  assume "r k = Some oa"
  with assms(1,2) show "\<exists>st. array_close sr env r p =
      Inr (st, if oa_cnt oa - 1 = 0 then r(k := None) else r(k \<mapsto> oa\<lparr>oa_cnt := oa_cnt oa - 1\<rparr>))"
    by (rule close_present)
qed

lemma locks_ok_locks_succeed: "locks_ok locks_succeed"
  by (simp add: locks_ok_def locks_succeed_def)

lemma real_dir_wga: "real_dir env0 ''/w/g/a'' = Inr ''/w/g/a''"
  by (simp add: real_dir_def starts_with_def adjacent_slashes_dedup_def
      both_slashes_def purge_dots_from_path_def c_str_def)

theorem open_close_refcount_witness:
  "locks_ok locks_succeed \<and> real_dir env0 ''/w/g/a'' = Inr ''/w/g/a''
   \<and> close_times locks_succeed env0 (open_times locks_succeed Map.empty ''/w/g/a'' 3) ''/w/g/a'' 3
       = Inr Map.empty
   \<and> (\<exists>oa. close_times locks_succeed env0 (open_times locks_succeed Map.empty ''/w/g/a'' 3) ''/w/g/a'' 2
             = Inr [''/w/g/a'' \<mapsto> oa] \<and> oa_cnt oa = 1)"
proof -
  have e: "(Map.empty :: open_arrays) ''/w/g/a'' = None" by simp
  have n3: "(3::nat) = Suc 2" by simp
  note t = open_close_refcount[OF locks_ok_locks_succeed real_dir_wga e, of 2]
  from t have "close_times locks_succeed env0 (open_times locks_succeed Map.empty ''/w/g/a'' (Suc 2)) ''/w/g/a'' (Suc 2)
       = Inr Map.empty" by (rule conjunct1)
  moreover from t have "\<exists>oa. close_times locks_succeed env0 (open_times locks_succeed Map.empty ''/w/g/a'' (Suc 2)) ''/w/g/a'' 2
             = Inr [''/w/g/a'' \<mapsto> oa] \<and> oa_cnt oa = 1" by blast
  ultimately show ?thesis
    unfolding n3 using locks_ok_locks_succeed real_dir_wga by blast
qed

section \<open>Order of the effects of \<^verbatim>\<open>consolidation_finalize\<close>\<close>

lemma remove_markers_effects:
  "remove_markers rm names = (st, effects) \<Longrightarrow>
   (\<exists>n \<le> length names. effects = map (\<lambda>f. OldMarkerRemoved (marker_of f)) (take n names))
   \<and> (ok st \<longrightarrow> effects = map (\<lambda>f. OldMarkerRemoved (marker_of f)) names)"
proof (induction names arbitrary: st effects)
  case Nil
  then show ?case by auto
next
  case (Cons f names)
  show ?case
  proof (cases "rm (f @ ''/'' @ TILEDB_FRAGMENT_FILENAME)")
    case True
    with Cons.prems have "effects = []" "\<not> ok st" by auto
    then show ?thesis by (auto intro: exI[of _ 0])
  next
    case False
    obtain st' eff' where r: "remove_markers rm names = (st', eff')" by (cases "remove_markers rm names")
    with False Cons.prems have e: "effects = OldMarkerRemoved (marker_of f) # eff'" and s: "st = st'"
      by (auto simp: marker_of_def)
    from Cons.IH[OF r] obtain n where n: "n \<le> length names"
      "eff' = map (\<lambda>f. OldMarkerRemoved (marker_of f)) (take n names)"
      and full: "ok st' \<longrightarrow> eff' = map (\<lambda>f. OldMarkerRemoved (marker_of f)) names"
      by auto
    have "effects = map (\<lambda>f. OldMarkerRemoved (marker_of f)) (take (Suc n) (f # names))"
      using e n by simp
    moreover have "Suc n \<le> length (f # names)" using n by simp
    ultimately have "\<exists>n \<le> length (f # names).
        effects = map (\<lambda>f. OldMarkerRemoved (marker_of f)) (take n (f # names))" by blast
    moreover have "ok st \<longrightarrow> effects = map (\<lambda>f. OldMarkerRemoved (marker_of f)) (f # names)"
      using full e s by simp
    ultimately show ?thesis by (rule conjI)
  qed
qed

lemma delete_dirs_effects:
  "delete_dirs del names = (st, effects) \<Longrightarrow>
   \<exists>n \<le> length names. effects = map OldDirectoryDeleted (take n names)"
proof (induction names arbitrary: st effects)
  case Nil
  then show ?case by auto
next
  case (Cons f names)
  show ?case
  proof (cases "ok (del f)")
    case False
    with Cons.prems have "effects = []" by auto
    then show ?thesis by (auto intro: exI[of _ 0])
  next
    case True
    obtain st' eff' where r: "delete_dirs del names = (st', eff')" by (cases "delete_dirs del names")
    with True Cons.prems have e: "effects = OldDirectoryDeleted f # eff'" by auto
    from Cons.IH[OF r] obtain n where n: "n \<le> length names"
      "eff' = map OldDirectoryDeleted (take n names)" by auto
    have "effects = map OldDirectoryDeleted (take (Suc n) (f # names))" using e n by simp
    moreover have "Suc n \<le> length (f # names)" using n by simp
    ultimately show ?thesis by blast
  qed
qed

lemma consolidation_finalize_shape:
  assumes "consolidation_finalize fr olds = (st, effects)"
  shows "effects = [] \<or> effects = [ExclusiveLockAcquired]
     \<or> (\<exists>n \<le> length olds. effects = [ExclusiveLockAcquired, NewFragmentFinalized]
            @ map (\<lambda>f. OldMarkerRemoved (marker_of f)) (take n olds))
     \<or> (\<exists>n \<le> length olds. effects = [ExclusiveLockAcquired, NewFragmentFinalized]
            @ map (\<lambda>f. OldMarkerRemoved (marker_of f)) olds @ [LockReleased]
            @ map OldDirectoryDeleted (take n olds))"
proof -
  obtain st_rm removed where rm: "remove_markers (remove_fails fr) olds = (st_rm, removed)"
    by (cases "remove_markers (remove_fails fr) olds")
  obtain st_del deleted where del: "delete_dirs (st_delete_dir fr) olds = (st_del, deleted)"
    by (cases "delete_dirs (st_delete_dir fr) olds")
  note R = remove_markers_effects[OF rm] and D = delete_dirs_effects[OF del]
  consider (a) "effects = []" | (b) "effects = [ExclusiveLockAcquired]"
    | (c) "effects = [ExclusiveLockAcquired, NewFragmentFinalized] @ removed"
    | (d) "ok st_rm" "effects = [ExclusiveLockAcquired, NewFragmentFinalized] @ removed
                         @ [LockReleased] @ deleted"
    using assms rm del unfolding consolidation_finalize_def
    by (auto split: if_splits)
  then show ?thesis
  proof cases
    case a then show ?thesis by simp
  next
    case b then show ?thesis by simp
  next
    case c
    with R show ?thesis by blast
  next
    case d
    from d(1) R have "removed = map (\<lambda>f. OldMarkerRemoved (marker_of f)) olds" by blast
    with d(2) D show ?thesis by blast
  qed
qed

lemma effect_after_prefix:
  assumes "xs = A @ B" "i < length xs" "P (xs ! i)" "\<forall>a \<in> set A. \<not> P a"
  shows "set A \<subseteq> set (take i xs)"
proof -
  have "\<not> i < length A"
  proof
    assume "i < length A"
    then have "xs ! i \<in> set A" using assms(1) by (simp add: nth_append)
    with assms(3,4) show False by blast
  qed
  then have "take i xs = A @ take (i - length A) B" using assms(1) by simp
  then show ?thesis by simp
qed

text \<open>
  C3. In every run of \<^verbatim>\<open>consolidation_finalize\<close>, whatever the external calls answer:
  before the marker of an old fragment is removed the new fragment has been finalised
  (its marker written), and before an old fragment directory is deleted the marker of
  every old fragment of the list has been removed. So at no point of a run is the marker
  of an old fragment gone while the new fragment is not yet visible.
\<close>

theorem consolidation_finalize_order:
  assumes "consolidation_finalize fr olds = (st, effects)"
  shows "(\<forall>i m. i < length effects \<longrightarrow> effects ! i = OldMarkerRemoved m \<longrightarrow>
            NewFragmentFinalized \<in> set (take i effects))
       \<and> (\<forall>i d. i < length effects \<longrightarrow> effects ! i = OldDirectoryDeleted d \<longrightarrow>
            (\<forall>f \<in> set olds. OldMarkerRemoved (marker_of f) \<in> set (take i effects)))"
proof (intro conjI allI impI ballI)
  fix i m
  assume i: "i < length effects" and e: "effects ! i = OldMarkerRemoved m"
  let ?P = "\<lambda>x. \<exists>m. x = OldMarkerRemoved m"
  have P: "?P (effects ! i)" using e by blast
  from consolidation_finalize_shape[OF assms]
  consider (short) "effects = [] \<or> effects = [ExclusiveLockAcquired]"
    | (long) B where "effects = [ExclusiveLockAcquired, NewFragmentFinalized] @ B"
    by auto
  then show "NewFragmentFinalized \<in> set (take i effects)"
  proof cases
    case short
    then have "\<forall>a \<in> set effects. \<not> ?P a" by auto
    with i P show ?thesis using nth_mem by blast
  next
    case long
    have "set [ExclusiveLockAcquired, NewFragmentFinalized] \<subseteq> set (take i effects)"
      using long i P by (rule effect_after_prefix) simp
    then show ?thesis by simp
  qed
next
  fix i d f
  assume i: "i < length effects" and e: "effects ! i = OldDirectoryDeleted d" and f: "f \<in> set olds"
  let ?P = "\<lambda>x. \<exists>d. x = OldDirectoryDeleted d"
  have P: "?P (effects ! i)" using e by blast
  from consolidation_finalize_shape[OF assms]
  consider (none) "\<forall>a \<in> set effects. \<not> ?P a"
    | (deleted) B where "effects = ([ExclusiveLockAcquired, NewFragmentFinalized]
            @ map (\<lambda>f. OldMarkerRemoved (marker_of f)) olds @ [LockReleased]) @ B"
    by auto
  then show "OldMarkerRemoved (marker_of f) \<in> set (take i effects)"
  proof cases
    case none
    with i P show ?thesis using nth_mem by blast
  next
    case deleted
    have "set ([ExclusiveLockAcquired, NewFragmentFinalized]
            @ map (\<lambda>f. OldMarkerRemoved (marker_of f)) olds @ [LockReleased])
          \<subseteq> set (take i effects)"
      using deleted i P by (rule effect_after_prefix) auto
    with f show ?thesis by auto
  qed
qed

lemma finalize_example:
  "consolidation_finalize finalize_ok [''/w/a/__f_1'', ''/w/a/__f_2''] =
     (Ok, [ExclusiveLockAcquired, NewFragmentFinalized,
           OldMarkerRemoved ''/w/a/__f_1/__tiledb_fragment.tdb'',
           OldMarkerRemoved ''/w/a/__f_2/__tiledb_fragment.tdb'',
           LockReleased,
           OldDirectoryDeleted ''/w/a/__f_1'', OldDirectoryDeleted ''/w/a/__f_2''])"
  by (simp add: consolidation_finalize_def finalize_ok_def TILEDB_FRAGMENT_FILENAME_def)

theorem consolidation_finalize_order_witness:
  "consolidation_finalize finalize_ok [''/w/a/__f_1'', ''/w/a/__f_2''] =
     (Ok, [ExclusiveLockAcquired, NewFragmentFinalized,
           OldMarkerRemoved ''/w/a/__f_1/__tiledb_fragment.tdb'',
           OldMarkerRemoved ''/w/a/__f_2/__tiledb_fragment.tdb'',
           LockReleased,
           OldDirectoryDeleted ''/w/a/__f_1'', OldDirectoryDeleted ''/w/a/__f_2''])
   \<and> NewFragmentFinalized \<in> set (take 2 [ExclusiveLockAcquired, NewFragmentFinalized,
           OldMarkerRemoved ''/w/a/__f_1/__tiledb_fragment.tdb'',
           OldMarkerRemoved ''/w/a/__f_2/__tiledb_fragment.tdb'',
           LockReleased,
           OldDirectoryDeleted ''/w/a/__f_1'', OldDirectoryDeleted ''/w/a/__f_2''])
   \<and> OldMarkerRemoved (marker_of ''/w/a/__f_2'') \<in> set (take 5 [ExclusiveLockAcquired, NewFragmentFinalized,
           OldMarkerRemoved ''/w/a/__f_1/__tiledb_fragment.tdb'',
           OldMarkerRemoved ''/w/a/__f_2/__tiledb_fragment.tdb'',
           LockReleased,
           OldDirectoryDeleted ''/w/a/__f_1'', OldDirectoryDeleted ''/w/a/__f_2''])"
proof -
  let ?eff = "[ExclusiveLockAcquired, NewFragmentFinalized,
           OldMarkerRemoved ''/w/a/__f_1/__tiledb_fragment.tdb'',
           OldMarkerRemoved ''/w/a/__f_2/__tiledb_fragment.tdb'',
           LockReleased,
           OldDirectoryDeleted ''/w/a/__f_1'', OldDirectoryDeleted ''/w/a/__f_2'']"
  note t = consolidation_finalize_order[OF finalize_example]
  from t have a: "\<forall>i m. i < length ?eff \<longrightarrow> ?eff ! i = OldMarkerRemoved m \<longrightarrow>
      NewFragmentFinalized \<in> set (take i ?eff)" by (rule conjunct1)
  from t have b: "\<forall>i d. i < length ?eff \<longrightarrow> ?eff ! i = OldDirectoryDeleted d \<longrightarrow>
      (\<forall>f \<in> set [''/w/a/__f_1'', ''/w/a/__f_2'']. OldMarkerRemoved (marker_of f) \<in> set (take i ?eff))"
    by (rule conjunct2)
  have "NewFragmentFinalized \<in> set (take 2 ?eff)"
    using a[rule_format, of 2 "''/w/a/__f_1/__tiledb_fragment.tdb''"] by simp
  moreover have "OldMarkerRemoved (marker_of ''/w/a/__f_2'') \<in> set (take 5 ?eff)"
    using b[rule_format, of 5 "''/w/a/__f_1''" "''/w/a/__f_2''"] by simp
  ultimately show ?thesis using finalize_example by simp
qed

section \<open>The status of \<^verbatim>\<open>array_consolidate\<close>\<close>

text \<open>
  C1. The claim is that \<^verbatim>\<open>array_consolidate\<close> returns success exactly when every phase
  succeeds, so that an error of \<^verbatim>\<open>consolidation_finalize\<close> is reported. The code tests
  \<^verbatim>\<open>st_array_close.ok() && !st_consolidation_finalize.ok()\<close>: when every other phase
  succeeds and \<^verbatim>\<open>consolidation_finalize\<close> fails the result is \<^verbatim>\<open>Ok\<close>, and when every
  phase succeeds the result is an error.
\<close>

theorem array_consolidate_inverted_finalize_test:
  "array_consolidate ''/w/a'' Ok Ok Ok (StorageManagerError ''Cannot lock'') Ok = Ok
   \<and> array_consolidate ''/w/a'' Ok Ok Ok Ok Ok
       = StorageManagerError ''Could not consolidate array: /w/a''"
  by (simp add: array_consolidate_def)

section \<open>Growth of the output buffer in \<^verbatim>\<open>gunzip_unknown_output_size\<close>\<close>

text \<open>
  The buffer is doubled once per chunk, under an \<^verbatim>\<open>if\<close>. That is enough when the
  buffer is at least as large as a chunk: then every byte is delivered and every copy
  stays inside the allocated size.
\<close>

lemma gunzip_chunks_large_buffer:
  "0 < chunk_size \<Longrightarrow> chunk_size \<le> avail_out \<Longrightarrow> length out \<le> avail_out \<Longrightarrow>
   \<exists>cap. gunzip_chunks chunk_size (Deflated pending) out avail_out = Some (Inr (out @ pending, cap))
         \<and> length (out @ pending) \<le> cap"
proof (induction "length pending" arbitrary: pending out avail_out rule: less_induct)
  case less
  let ?chunk = "take chunk_size pending"
  let ?n = "length ?chunk"
  show ?case
  proof (cases "pending = []")
    case True
    with less.prems show ?thesis
      by (subst gunzip_chunks.simps) simp
  next
    case False
    with less.prems(1) have n0: "?n \<noteq> 0" by simp
    define avail' where "avail' = (if length out + ?n > avail_out
                                   then expand_buffer avail_out else avail_out)"
    have nle: "?n \<le> chunk_size" by simp
    have fits: "\<not> length out + ?n > avail'"
      using less.prems nle by (auto simp: avail'_def expand_buffer_def)
    have ge: "chunk_size \<le> avail'" using less.prems by (auto simp: avail'_def expand_buffer_def)
    show ?thesis
    proof (cases "chunk_size - ?n = 0")
      case full: True
      have shorter: "length (drop chunk_size pending) < length pending"
        using False less.prems(1) by simp
      have len: "length (out @ ?chunk) \<le> avail'" using fits by simp
      from less.hyps[OF shorter less.prems(1) ge len]
      obtain cap where "gunzip_chunks chunk_size (Deflated (drop chunk_size pending)) (out @ ?chunk) avail'
          = Some (Inr ((out @ ?chunk) @ drop chunk_size pending, cap))"
        and "length ((out @ ?chunk) @ drop chunk_size pending) \<le> cap" by blast
      then have "gunzip_chunks chunk_size (Deflated (drop chunk_size pending)) (out @ ?chunk) avail'
          = Some (Inr (out @ pending, cap)) \<and> length (out @ pending) \<le> cap" by simp
      moreover have "gunzip_chunks chunk_size (Deflated pending) out avail_out
          = gunzip_chunks chunk_size (Deflated (drop chunk_size pending)) (out @ ?chunk) avail'"
        using n0 fits full unfolding avail'_def
        by (subst gunzip_chunks.simps) (simp add: Let_def)
      ultimately show ?thesis by auto
    next
      case part: False
      then have "length pending < chunk_size" by simp
      then have all: "?chunk = pending" by simp
      have "gunzip_chunks chunk_size (Deflated pending) out avail_out = Some (Inr (out @ ?chunk, avail'))"
        using n0 fits part unfolding avail'_def
        by (subst gunzip_chunks.simps) (simp add: Let_def)
      moreover have "length (out @ pending) \<le> avail'" using fits all by simp
      ultimately show ?thesis using all by auto
    qed
  qed
qed

text \<open>
  It is not enough for a smaller buffer: with a capacity of 1, three bytes arrive in the
  first chunk, the capacity becomes 2 and the copy of three bytes runs over it.
\<close>

lemma gunzip_small_buffer_overflows:
  "3 \<le> chunk_size \<Longrightarrow>
   gunzip_unknown_output_size chunk_size (deflate ''abc'') 1 = Some (Inl OutOfBounds)"
  by (simp add: gunzip_unknown_output_size_def deflate_def gunzip_chunks.simps expand_buffer_def)

text \<open>
  C2. The claim is that the streaming gunzip returns the original bytes when the output
  buffer starts with a capacity of 1 byte, every write staying inside the allocated
  capacity. For the three bytes \<^verbatim>\<open>abc\<close>, a chunk size of 16 KiB and a capacity of 1 the
  copy writes 3 bytes into a buffer of 2.
\<close>

theorem gunzip_unknown_output_size_overflows_small_buffer:
  "gunzip_unknown_output_size 16384 (deflate ''abc'') 1 = Some (Inl OutOfBounds)"
  by (simp add: gunzip_unknown_output_size_def deflate_def gunzip_chunks.simps expand_buffer_def)

end
